theory Spec2Isabelle
  imports Complex_Main
begin

section \<open>CatMOD: region geometry, insertion merger, read alignment encoder\<close>

text \<open>
  A shallow embedding of \<^verbatim>\<open>src/CatMOD/region.py\<close>. Python integers are \<open>int\<close>,
  \<^verbatim>\<open>None\<close>-or-value arguments are \<open>option\<close>s, exceptions are values of the type
  \<open>error\<close>, and Python's truth test of an optional integer (\<^verbatim>\<open>if x:\<close>) is the
  function \<open>truthy\<close>: it fails for \<^verbatim>\<open>None\<close> and for \<open>0\<close> alike.
\<close>

datatype error = ValueError | KeyError | IndexError | RecursionError | OverflowError

definition truthy :: "int option \<Rightarrow> bool" where
  "truthy x = (case x of None \<Rightarrow> False | Some v \<Rightarrow> v \<noteq> 0)"

subsection \<open>Region\<close>

text \<open>
  The class \<^verbatim>\<open>Region\<close>. The attribute \<^verbatim>\<open>end\<close> is the field \<open>end_pos\<close>
  (\<^verbatim>\<open>end\<close> is a keyword of the theory language).
\<close>

record region =
  chrom :: string
  start :: int
  end_pos :: int
  strand :: string
  info :: string
  offset :: int

text \<open>\<^verbatim>\<open>Region.__init__\<close>: both checks raise \<^verbatim>\<open>ValueError\<close>.\<close>

definition Region :: "string \<Rightarrow> int \<Rightarrow> int \<Rightarrow> string \<Rightarrow> string \<Rightarrow> int \<Rightarrow> error + region" where
  "Region c s e sd i off =
     (if s \<le> e then
        (if sd = ''+'' \<or> sd = ''-'' then
           Inr \<lparr>chrom = c, start = s, end_pos = e, strand = sd, info = i, offset = off\<rparr>
         else Inl ValueError)
      else Inl ValueError)"

text \<open>\<^verbatim>\<open>Region.__str__\<close> is not needed: the driver receives the key as a string.\<close>

text \<open>
  \<^verbatim>\<open>Region.resize(window, limit)\<close>. The method mutates the object and returns nothing; the
  model returns the updated record. The method calls itself in the shrink branch, and
  Python bounds the depth of calls: the first argument is the number of nested calls
  still allowed, and \<open>None\<close> is the \<^verbatim>\<open>RecursionError\<close> raised when it is used up.
  \<^verbatim>\<open>//\<close> and \<^verbatim>\<open>%\<close> round towards minus infinity, as \<open>div\<close> and \<open>mod\<close> on \<open>int\<close> do.
\<close>

fun resize :: "nat \<Rightarrow> region \<Rightarrow> int \<Rightarrow> int option \<Rightarrow> region option" where
  "resize 0 r window limit = None"
| "resize (Suc depth) r window limit =
     (if window > end_pos r - start r then
        (let flank_size = (window - (end_pos r - start r)) div 2 in
         if start r - flank_size - offset r \<le> 0 then
           Some (r\<lparr>start := 0, end_pos := window\<rparr>)
         else if truthy limit \<and> end_pos r + flank_size + 1 - offset r \<ge> the limit then
           Some (r\<lparr>start := the limit - window, end_pos := the limit\<rparr>)
         else if (window - (end_pos r - start r)) mod 2 = 0 then
           Some (r\<lparr>start := start r - flank_size, end_pos := end_pos r + flank_size\<rparr>)
         else if offset r \<noteq> 0 then
           Some (r\<lparr>start := start r - flank_size - 1, end_pos := end_pos r + flank_size,
                   offset := 0\<rparr>)
         else
           Some (r\<lparr>start := start r - flank_size, end_pos := end_pos r + flank_size + 1,
                   offset := 1\<rparr>))
      else if window < end_pos r - start r then
        (let mid = (start r + end_pos r - offset r) div 2;
             r1 = r\<lparr>start := mid, end_pos := mid + 1\<rparr>;
             r2 = (if (end_pos r1 - start r1 - offset r1) mod 2 = 0
                   then r1\<lparr>offset := 1\<rparr> else r1\<lparr>offset := 0\<rparr>)
         in resize depth r2 window limit)
      else Some r)"

text \<open>The region a shrinking call hands to its recursive call.\<close>

definition recentred :: "region \<Rightarrow> region" where
  "recentred r =
     (let mid = (start r + end_pos r - offset r) div 2;
          r1 = r\<lparr>start := mid, end_pos := mid + 1\<rparr>
      in if (end_pos r1 - start r1 - offset r1) mod 2 = 0
         then r1\<lparr>offset := 1\<rparr> else r1\<lparr>offset := 0\<rparr>)"

subsection \<open>Insertion merger\<close>

text \<open>
  The module-level dictionaries \<^verbatim>\<open>_BASE_INTS\<close> and \<^verbatim>\<open>_BASE_INDEX\<close> (an identifier
  cannot start with an underscore here). A key that is missing raises \<^verbatim>\<open>KeyError\<close>:
  the lookup returns \<open>None\<close>.
\<close>

definition BASE_INTS :: "char \<rightharpoonup> nat" where
  "BASE_INTS = map_of [(CHR ''A'', 0), (CHR ''C'', 1), (CHR ''G'', 2), (CHR ''T'', 3),
                       (CHR ''-'', 4), (CHR ''^'', 5)]"

definition BASE_INDEX :: "char \<rightharpoonup> char" where
  "BASE_INDEX = map_of [(CHR ''A'', CHR ''0''), (CHR ''C'', CHR ''1''),
                        (CHR ''G'', CHR ''2''), (CHR ''T'', CHR ''3'')]"

text \<open>
  \<^verbatim>\<open>[_BASE_INDEX[base] for base in insert_seq_list]\<close>: the comprehension stops at the
  first missing key.
\<close>

fun index_digits :: "char list \<Rightarrow> char list option" where
  "index_digits [] = Some []"
| "index_digits (base # bases) =
     (case BASE_INDEX base of
        None \<Rightarrow> None
      | Some d \<Rightarrow> (case index_digits bases of None \<Rightarrow> None | Some ds \<Rightarrow> Some (d # ds)))"

text \<open>
  \<^verbatim>\<open>int(s, 4)\<close> on a string of digits: the digits are read from the left, most significant
  first; a character that is no base-4 digit, or an empty string, raises
  \<^verbatim>\<open>ValueError\<close> (\<open>None\<close>). Python integers are unbounded.
\<close>

definition digit4 :: "char \<rightharpoonup> int" where
  "digit4 = map_of [(CHR ''0'', 0), (CHR ''1'', 1), (CHR ''2'', 2), (CHR ''3'', 3)]"

fun int4_from :: "int \<Rightarrow> string \<Rightarrow> int option" where
  "int4_from acc [] = Some acc"
| "int4_from acc (c # cs) =
     (case digit4 c of None \<Rightarrow> None | Some d \<Rightarrow> int4_from (4 * acc + d) cs)"

definition int4 :: "string \<Rightarrow> int option" where
  "int4 s = (if s = [] then None else int4_from 0 s)"

text \<open>\<^verbatim>\<open>insert_seq_index\<close> (the spec's \<open>pack_insertion\<close>).\<close>

definition insert_seq_index :: "char list \<Rightarrow> error + int" where
  "insert_seq_index insert_seq_list =
     (case index_digits insert_seq_list of
        None \<Rightarrow> Inl KeyError
      | Some ds \<Rightarrow>
          (case int4 (CHR ''1'' # ds) of
             None \<Rightarrow> Inl ValueError
           | Some v \<Rightarrow> Inr (min 9223372036854775807 v)))"

text \<open>
  The packing as the specification words it: each base is a base-4 digit, the digits
  follow a leading digit 1 in read order, the digit sequence is read as a base-4
  number, and the result saturates at the largest signed 64-bit value.
\<close>

definition base_digit :: "char \<Rightarrow> int" where
  "base_digit c =
     (if c = CHR ''A'' then 0 else if c = CHR ''C'' then 1 else if c = CHR ''G'' then 2 else 3)"

fun base4_value :: "int list \<Rightarrow> int" where
  "base4_value [] = 0"
| "base4_value (d # ds) = d * 4 ^ length ds + base4_value ds"

definition pack_insertion :: "char list \<Rightarrow> int" where
  "pack_insertion bases = min 9223372036854775807 (base4_value (1 # map base_digit bases))"

text \<open>
  The numbers of \<^verbatim>\<open>insert_requality\<close> are Python integers, Python floats and
  single-precision array elements, and what its operations return is decided by the
  interpreter's and the array library's floating-point arithmetic, which the source
  does not contain. The arithmetic is therefore a parameter: a type \<open>'f\<close> of numeric
  values and the operations the source applies to them. \<^verbatim>\<open>**\<close> can raise
  (\<^verbatim>\<open>OverflowError\<close>) and \<^verbatim>\<open>math.log\<close> can raise (\<^verbatim>\<open>ValueError\<close>, when its argument is
  not positive); the other operations return a value. \<open>to_float32\<close> is the conversion
  made by a store into the single-precision array \<^verbatim>\<open>range_quality\<close>.
\<close>

record 'f arithmetic =
  py_int :: "int \<Rightarrow> 'f"
  py_neg :: "'f \<Rightarrow> 'f"
  py_div :: "'f \<Rightarrow> 'f \<Rightarrow> 'f"
  py_pow :: "'f \<Rightarrow> 'f \<Rightarrow> error + 'f"
  py_sub :: "'f \<Rightarrow> 'f \<Rightarrow> 'f"
  py_mul :: "'f \<Rightarrow> 'f \<Rightarrow> 'f"
  math_log :: "'f \<Rightarrow> 'f \<Rightarrow> error + 'f"
  to_float32 :: "'f \<Rightarrow> 'f"

text \<open>
  \<^verbatim>\<open>insert_requality\<close> (the spec's \<open>merge_quality\<close>), operation by operation. The loop
  \<^verbatim>\<open>iq *= 1 - 10 ** (-q / 10)\<close> starts from the integer 1; the result is
  \<^verbatim>\<open>-10 * math.log(1 - iq, 10)\<close>.
\<close>

fun requality_loop :: "'f arithmetic \<Rightarrow> 'f \<Rightarrow> 'f list \<Rightarrow> error + 'f" where
  "requality_loop ar iq [] = Inr iq"
| "requality_loop ar iq (q # qs) =
     (case py_pow ar (py_int ar 10) (py_div ar (py_neg ar q) (py_int ar 10)) of
        Inl e \<Rightarrow> Inl e
      | Inr p \<Rightarrow> requality_loop ar (py_mul ar iq (py_sub ar (py_int ar 1) p)) qs)"

definition insert_requality :: "'f arithmetic \<Rightarrow> 'f list \<Rightarrow> error + 'f" where
  "insert_requality ar insert_qual_list =
     (case requality_loop ar (py_int ar 1) insert_qual_list of
        Inl e \<Rightarrow> Inl e
      | Inr iq \<Rightarrow>
          (case math_log ar (py_sub ar (py_int ar 1) iq) (py_int ar 10) of
             Inl e \<Rightarrow> Inl e
           | Inr l \<Rightarrow> Inr (py_mul ar (py_int ar (- 10)) l)))"

text \<open>
  One arithmetic to run the definitions on concrete inputs: the operations on real
  numbers, without rounding. The theorems below hold for every arithmetic; nothing is
  claimed about how close this one is to the interpreter's.
\<close>

definition exact_arithmetic :: "real arithmetic" where
  "exact_arithmetic =
     \<lparr>py_int = of_int, py_neg = uminus, py_div = (/),
      py_pow = (\<lambda>b x. Inr (b powr x)),
      py_sub = (-), py_mul = (*),
      math_log = (\<lambda>x b. if x \<le> 0 then Inl ValueError else Inr (log b x)),
      to_float32 = (\<lambda>x. x)\<rparr>"

text \<open>The four bases a packed run is made of.\<close>

definition is_base :: "char \<Rightarrow> bool" where
  "is_base c = (c = CHR ''A'' \<or> c = CHR ''C'' \<or> c = CHR ''G'' \<or> c = CHR ''T'')"

subsection \<open>Read alignment encoder\<close>

text \<open>
  What the encoder uses of a read of the alignment library: the strand flag, the name,
  the base sequence, the per-base qualities (unsigned bytes) and the aligned pairs
  \<open>(read position, reference position)\<close>, each position an integer or \<^verbatim>\<open>None\<close>.
\<close>

record read =
  is_reverse :: bool
  query_name :: string
  query_sequence :: string
  query_qualities :: "nat list"
  get_aligned_pairs :: "(int option \<times> int option) list"

text \<open>
  Indexing a Python sequence or one axis of an array of length \<open>n\<close>: a negative index
  counts from the end, and an index outside \<open>[-n, n)\<close> raises \<^verbatim>\<open>IndexError\<close>
  (\<open>None\<close>).
\<close>

definition norm_index :: "nat \<Rightarrow> int \<Rightarrow> nat option" where
  "norm_index n i =
     (if 0 \<le> i \<and> i < int n then Some (nat i)
      else if - int n \<le> i \<and> i < 0 then Some (nat (i + int n))
      else None)"

definition py_index :: "'a list \<Rightarrow> int \<Rightarrow> 'a option" where
  "py_index xs i = map_option (\<lambda>k. xs ! k) (norm_index (length xs) i)"

text \<open>
  The local variables of \<^verbatim>\<open>get_read_alignment\<close>. Two fields are bookkeeping of the
  model: \<open>rows\<close> lists the row index of every access to \<open>range_one_hot\<close> and
  \<open>range_quality\<close>, in order, as the program wrote it (before a negative index is
  wrapped); \<open>raised\<close> is the exception that ended the scan, if one did. Qualities
  are values of the arithmetic (see \<open>insert_requality\<close>): \<^verbatim>\<open>range_quality\<close> starts as
  single-precision zeros, and every store into it converts to single precision.
\<close>

record 'f scan_state =
  range_one_hot :: "int list list"
  range_quality :: "'f list"
  in_range :: bool
  insert_seq_list :: "char list"
  insert_qual_list :: "'f list"
  rows :: "int list"
  raised :: "error option"

definition init_state :: "'f arithmetic \<Rightarrow> nat \<Rightarrow> 'f scan_state" where
  "init_state ar ali_window =
     \<lparr>range_one_hot = replicate ali_window (replicate 6 0),
      range_quality = replicate ali_window (to_float32 ar (py_int ar 0)),
      in_range = False, insert_seq_list = [], insert_qual_list = [],
      rows = [], raised = None\<rparr>"

text \<open>Statements run in order; once an exception is raised the rest is skipped.\<close>

definition raise :: "error \<Rightarrow> 'f scan_state \<Rightarrow> 'f scan_state" where
  "raise e st = st\<lparr>raised := Some e\<rparr>"

definition do_all :: "('f scan_state \<Rightarrow> 'f scan_state) list \<Rightarrow> 'f scan_state \<Rightarrow> 'f scan_state" where
  "do_all stmts st = fold (\<lambda>stmt s. if raised s = None then stmt s else s) stmts st"

text \<open>\<^verbatim>\<open>range_one_hot[row, channel] = v\<close> and \<^verbatim>\<open>range_quality[row] = q\<close>.\<close>

definition set_one_hot :: "int \<Rightarrow> nat \<Rightarrow> int \<Rightarrow> 'f scan_state \<Rightarrow> 'f scan_state" where
  "set_one_hot row channel v st =
     (case norm_index (length (range_one_hot st)) row of
        None \<Rightarrow> raise IndexError (st\<lparr>rows := rows st @ [row]\<rparr>)
      | Some i \<Rightarrow>
          st\<lparr>range_one_hot := (range_one_hot st)[i := (range_one_hot st ! i)[channel := v]],
             rows := rows st @ [row]\<rparr>)"

definition set_quality :: "'f arithmetic \<Rightarrow> int \<Rightarrow> 'f \<Rightarrow> 'f scan_state \<Rightarrow> 'f scan_state" where
  "set_quality ar row q st =
     (case norm_index (length (range_quality st)) row of
        None \<Rightarrow> raise IndexError (st\<lparr>rows := rows st @ [row]\<rparr>)
      | Some i \<Rightarrow>
          st\<lparr>range_quality := (range_quality st)[i := to_float32 ar q],
             rows := rows st @ [row]\<rparr>)"

text \<open>
  \<^verbatim>\<open>range_one_hot[row, 5] = insert_seq_index(insert_seq_list)\<close>: the right-hand side
  is evaluated first.
\<close>

definition store_insert_code :: "int \<Rightarrow> 'f scan_state \<Rightarrow> 'f scan_state" where
  "store_insert_code row st =
     (case insert_seq_index (insert_seq_list st) of
        Inl e \<Rightarrow> raise e st
      | Inr v \<Rightarrow> set_one_hot row 5 v st)"

text \<open>\<^verbatim>\<open>range_one_hot[row, _BASE_INTS[read.query_sequence[read_index]]] = 1\<close>.\<close>

definition store_base :: "read \<Rightarrow> int \<Rightarrow> int \<Rightarrow> 'f scan_state \<Rightarrow> 'f scan_state" where
  "store_base rd row read_index st =
     (case py_index (query_sequence rd) read_index of
        None \<Rightarrow> raise IndexError st
      | Some base \<Rightarrow>
          (case BASE_INTS base of
             None \<Rightarrow> raise KeyError st
           | Some channel \<Rightarrow> set_one_hot row channel 1 st))"

text \<open>\<^verbatim>\<open>range_quality[row] = read.query_qualities[read_index]\<close>.\<close>

definition store_quality ::
  "'f arithmetic \<Rightarrow> read \<Rightarrow> int \<Rightarrow> int \<Rightarrow> 'f scan_state \<Rightarrow> 'f scan_state" where
  "store_quality ar rd row read_index st =
     (case py_index (query_qualities rd) read_index of
        None \<Rightarrow> raise IndexError st
      | Some q \<Rightarrow> set_quality ar row (py_int ar (int q)) st)"

text \<open>
  \<^verbatim>\<open>range_quality[row] = insert_requality([range_quality[row]] + insert_qual_list)\<close>:
  the old value is read first, then merged with the run, then the result is stored.
\<close>

definition merge_into_row :: "'f arithmetic \<Rightarrow> int \<Rightarrow> 'f scan_state \<Rightarrow> 'f scan_state" where
  "merge_into_row ar row st =
     (case norm_index (length (range_quality st)) row of
        None \<Rightarrow> raise IndexError (st\<lparr>rows := rows st @ [row]\<rparr>)
      | Some i \<Rightarrow>
          (case insert_requality ar ((range_quality st ! i) # insert_qual_list st) of
             Inl e \<Rightarrow> raise e (st\<lparr>rows := rows st @ [row]\<rparr>)
           | Inr q \<Rightarrow> set_quality ar row q (st\<lparr>rows := rows st @ [row]\<rparr>)))"

text \<open>
  \<^verbatim>\<open>range_quality[row] = insert_requality(insert_qual_list +
  [read.query_qualities[read_index]])\<close>.
\<close>

definition merge_with_base ::
  "'f arithmetic \<Rightarrow> read \<Rightarrow> int \<Rightarrow> int \<Rightarrow> 'f scan_state \<Rightarrow> 'f scan_state" where
  "merge_with_base ar rd row read_index st =
     (case py_index (query_qualities rd) read_index of
        None \<Rightarrow> raise IndexError st
      | Some q \<Rightarrow>
          (case insert_requality ar (insert_qual_list st @ [py_int ar (int q)]) of
             Inl e \<Rightarrow> raise e st
           | Inr m \<Rightarrow> set_quality ar row m st))"

text \<open>\<^verbatim>\<open>insert_seq_list, insert_qual_list = [], []\<close>.\<close>

definition clear_run :: "'f scan_state \<Rightarrow> 'f scan_state" where
  "clear_run st = st\<lparr>insert_seq_list := [], insert_qual_list := []\<rparr>"

text \<open>
  The insertion branch: append to the run when both lists are non-empty, start a new
  run otherwise. The base is looked up before the quality, in both cases.
\<close>

definition extend_run :: "'f arithmetic \<Rightarrow> read \<Rightarrow> int \<Rightarrow> 'f scan_state \<Rightarrow> 'f scan_state" where
  "extend_run ar rd read_index st =
     (case py_index (query_sequence rd) read_index of
        None \<Rightarrow> raise IndexError st
      | Some base \<Rightarrow>
          (case py_index (query_qualities rd) read_index of
             None \<Rightarrow>
               raise IndexError
                 (if insert_seq_list st \<noteq> [] \<and> insert_qual_list st \<noteq> []
                  then st\<lparr>insert_seq_list := insert_seq_list st @ [base]\<rparr>
                  else st\<lparr>insert_seq_list := [base]\<rparr>)
           | Some q \<Rightarrow>
               (if insert_seq_list st \<noteq> [] \<and> insert_qual_list st \<noteq> []
                then st\<lparr>insert_seq_list := insert_seq_list st @ [base],
                        insert_qual_list := insert_qual_list st @ [py_int ar (int q)]\<rparr>
                else st\<lparr>insert_seq_list := [base],
                        insert_qual_list := [py_int ar (int q)]\<rparr>)))"

text \<open>
  The body of the loop under \<^verbatim>\<open>if in_range:\<close>, for one aligned pair. The tests
  \<^verbatim>\<open>if read_index:\<close> and \<^verbatim>\<open>if ref_index:\<close> are truth tests.
\<close>

definition encode_pair ::
  "'f arithmetic \<Rightarrow> read \<Rightarrow> region \<Rightarrow> int option \<Rightarrow> int option
   \<Rightarrow> 'f scan_state \<Rightarrow> 'f scan_state" where
  "encode_pair ar rd rg read_index ref_index st =
     (if truthy read_index then
        (if truthy ref_index then
           (if insert_seq_list st \<noteq> [] then
              (if strand rg = ''+'' then
                 do_all [store_insert_code (the ref_index - start rg - 1),
                         merge_into_row ar (the ref_index - start rg - 1),
                         clear_run] st
               else
                 do_all [store_insert_code (the ref_index - start rg),
                         store_base rd (the ref_index - start rg) (the read_index),
                         merge_with_base ar rd (the ref_index - start rg) (the read_index),
                         clear_run] st)
            else
              do_all [store_base rd (the ref_index - start rg) (the read_index),
                      store_quality ar rd (the ref_index - start rg) (the read_index)] st)
         else extend_run ar rd (the read_index) st)
      else if truthy ref_index then
        (if insert_seq_list st \<noteq> [] then
           (if strand rg = ''+'' then
              do_all [store_insert_code (the ref_index - start rg - 1),
                      merge_into_row ar (the ref_index - start rg - 1),
                      clear_run] st
            else
              do_all [store_insert_code (the ref_index - start rg),
                      set_one_hot (the ref_index - start rg) 4 1,
                      clear_run] st)
         else set_one_hot (the ref_index - start rg) 4 1 st)
      else st)"

text \<open>
  The loop over the aligned pairs: \<^verbatim>\<open>break\<close> and an exception both end it.
\<close>

fun scan ::
  "'f arithmetic \<Rightarrow> read \<Rightarrow> region \<Rightarrow> 'f scan_state \<Rightarrow> (int option \<times> int option) list
   \<Rightarrow> 'f scan_state" where
  "scan ar rd rg st [] = st"
| "scan ar rd rg st ((read_index, ref_index) # pairs) =
     (if ref_index \<noteq> Some (start rg) \<and> truthy ref_index \<and> the ref_index \<ge> end_pos rg
      then st
      else
        (let st1 = (if ref_index = Some (start rg) then st\<lparr>in_range := True\<rparr> else st);
             st2 = (if in_range st1 then encode_pair ar rd rg read_index ref_index st1 else st1)
         in if raised st2 \<noteq> None then st2 else scan ar rd rg st2 pairs))"

text \<open>
  The result of the encoder: the dictionary with the read's name, tensor and quality
  vector, or the empty dictionary (\<open>None\<close>).
\<close>

record 'f features =
  read_id :: string
  alignment :: "int list list"
  quality :: "'f list"

definition read_strand :: "read \<Rightarrow> string" where
  "read_strand rd = (if is_reverse rd then ''-'' else ''+'')"

text \<open>\<^verbatim>\<open>range_one_hot.any()\<close>: some entry is not zero.\<close>

definition any_set :: "int list list \<Rightarrow> bool" where
  "any_set m = list_ex (list_ex (\<lambda>v. v \<noteq> 0)) m"

definition get_read_alignment ::
  "'f arithmetic \<Rightarrow> read \<Rightarrow> region \<Rightarrow> nat \<Rightarrow> error + 'f features option" where
  "get_read_alignment ar rd rg ali_window =
     (if read_strand rd \<noteq> strand rg then Inr None
      else
        (let st = scan ar rd rg (init_state ar ali_window) (get_aligned_pairs rd)
         in case raised st of
              Some e \<Rightarrow> Inl e
            | None \<Rightarrow>
                if any_set (range_one_hot st)
                then Inr (Some \<lparr>read_id = query_name rd, alignment = range_one_hot st,
                                quality = range_quality st\<rparr>)
                else Inr None))"

text \<open>
  The reference positions of a read's aligned pairs, in order. The alignment library
  yields them strictly increasing.
\<close>

definition ref_positions :: "(int option \<times> int option) list \<Rightarrow> int list" where
  "ref_positions pairs = List.map_filter snd pairs"

text \<open>The rows the encoder accesses for a read: none when the strands differ.\<close>

definition accessed_rows :: "'f arithmetic \<Rightarrow> read \<Rightarrow> region \<Rightarrow> nat \<Rightarrow> int list" where
  "accessed_rows ar rd rg ali_window =
     (if read_strand rd \<noteq> strand rg then []
      else rows (scan ar rd rg (init_state ar ali_window) (get_aligned_pairs rd)))"

subsection \<open>Region batch driver\<close>

text \<open>
  The driver's effects are a trace of events, replayed on the output directory. A file
  holds a saved alignment tensor, a saved quality matrix (of values of the arithmetic),
  or nothing (the marker).
  The alignment source is what \<^verbatim>\<open>fetch(chrom, start, end)\<close> yields on it.
\<close>

datatype 'f saved =
  Alignment_array "int list list list" | Quality_array "'f list list" | Empty_file

type_synonym 'f files = "string \<rightharpoonup> 'f saved"

datatype 'f event =
  Open_source string | Fetch_read | Close_source | Save string "'f saved" | Touch string

text \<open>
  \<^verbatim>\<open>np.save\<close> writes the file; \<^verbatim>\<open>touch\<close> creates an empty file, or leaves the content
  of an existing one.
\<close>

fun apply_event :: "'f event \<Rightarrow> 'f files \<Rightarrow> 'f files" where
  "apply_event (Save path content) fs = fs(path \<mapsto> content)"
| "apply_event (Touch path) fs =
     (case fs path of None \<Rightarrow> fs(path \<mapsto> Empty_file) | Some _ \<Rightarrow> fs)"
| "apply_event _ fs = fs"

definition replay :: "'f event list \<Rightarrow> 'f files \<Rightarrow> 'f files" where
  "replay evs fs = fold apply_event evs fs"

fun written_by :: "'f event \<Rightarrow> string list" where
  "written_by (Save path content) = [path]"
| "written_by _ = []"

text \<open>
  The loop over the fetched reads: the two lists the driver appends to, the events so
  far, and the exception of the encoder that ended the loop, if one did.
\<close>

record 'f batch =
  reads_alignment :: "int list list list"
  reads_quality :: "'f list list"
  events :: "'f event list"
  failed :: "error option"

fun read_loop ::
  "'f arithmetic \<Rightarrow> region \<Rightarrow> nat \<Rightarrow> 'f batch \<Rightarrow> read list \<Rightarrow> 'f batch" where
  "read_loop ar rg ali_window b [] = b"
| "read_loop ar rg ali_window b (rd # rds) =
     (case get_read_alignment ar rd rg ali_window of
        Inl e \<Rightarrow> b\<lparr>events := events b @ [Fetch_read], failed := Some e\<rparr>
      | Inr None \<Rightarrow> read_loop ar rg ali_window (b\<lparr>events := events b @ [Fetch_read]\<rparr>) rds
      | Inr (Some read_features_dict) \<Rightarrow>
          read_loop ar rg ali_window
            (b\<lparr>reads_alignment := reads_alignment b @ [alignment read_features_dict],
               reads_quality := reads_quality b @ [quality read_features_dict],
               events := events b @ [Fetch_read]\<rparr>) rds)"

text \<open>
  \<^verbatim>\<open>get_region_alignment\<close>, on the files \<open>fs\<close> of the output directory and the
  alignment source \<open>fetch\<close>, under the arithmetic \<open>ar\<close>. It returns its events and the exception it ends with, if
  any. The three paths are the f-strings of the source.
\<close>

definition done_path :: "string \<Rightarrow> string \<Rightarrow> string" where
  "done_path output_dir region_string = output_dir @ ''/'' @ region_string @ ''.ali.done''"

definition alignment_path :: "string \<Rightarrow> string \<Rightarrow> string" where
  "alignment_path output_dir region_string =
     output_dir @ ''/'' @ region_string @ ''.reads_alignment.npy''"

definition quality_path :: "string \<Rightarrow> string \<Rightarrow> string" where
  "quality_path output_dir region_string =
     output_dir @ ''/'' @ region_string @ ''.reads_quality.npy''"

definition get_region_alignment ::
  "'f arithmetic \<Rightarrow> 'f files \<Rightarrow> (string \<Rightarrow> int \<Rightarrow> int \<Rightarrow> read list)
   \<Rightarrow> region \<times> string \<times> string \<times> nat \<times> string \<times> bool
   \<Rightarrow> 'f event list \<times> error option" where
  "get_region_alignment ar fs fetch region_args =
     (case region_args of
        (region, region_string, alignment_file, ali_window, output_dir, overwrite) \<Rightarrow>
          if \<not> overwrite \<and> fs (done_path output_dir region_string) \<noteq> None then ([], None)
          else
            (let b = read_loop ar region ali_window
                       \<lparr>reads_alignment = [], reads_quality = [],
                        events = [Open_source alignment_file], failed = None\<rparr>
                       (fetch (chrom region) (start region) (end_pos region))
             in case failed b of
                  Some e \<Rightarrow> (events b, Some e)
                | None \<Rightarrow>
                    (events b @
                     [Close_source,
                      Save (alignment_path output_dir region_string)
                        (Alignment_array (reads_alignment b)),
                      Save (quality_path output_dir region_string)
                        (Quality_array (reads_quality b)),
                      Touch (done_path output_dir region_string)],
                     None)))"

text \<open>The non-empty encoder results of a list of reads, in order.\<close>

definition contributions ::
  "'f arithmetic \<Rightarrow> region \<Rightarrow> nat \<Rightarrow> read list \<Rightarrow> 'f features list" where
  "contributions ar rg ali_window rds =
     List.map_filter
       (\<lambda>rd. case get_read_alignment ar rd rg ali_window of Inr (Some f) \<Rightarrow> Some f | _ \<Rightarrow> None)
       rds"

text \<open>
  A property of a run, checked in every state the trace passes through, the first and
  the last included: if the marker exists then both arrays have been written by the
  events of this run so far.
\<close>

fun marker_needs_arrays ::
  "string \<Rightarrow> string \<Rightarrow> string \<Rightarrow> 'f files \<Rightarrow> string list \<Rightarrow> 'f event list \<Rightarrow> bool" where
  "marker_needs_arrays marker pa pq fs written [] =
     (fs marker = None \<or> (pa \<in> set written \<and> pq \<in> set written))"
| "marker_needs_arrays marker pa pq fs written (e # es) =
     ((fs marker = None \<or> (pa \<in> set written \<and> pq \<in> set written))
      \<and> marker_needs_arrays marker pa pq (apply_event e fs) (written_by e @ written) es)"

subsection \<open>Region geometry: width after resize\<close>

lemma resize_grow_width:
  assumes "end_pos r - start r < window"
  shows "\<exists>r'. resize (Suc depth) r window limit = Some r' \<and> end_pos r' - start r' = window"
proof -
  let ?d = "window - (end_pos r - start r)"
  have even_case: "?d mod 2 = 0 \<Longrightarrow> 2 * (?d div 2) = ?d" by presburger
  have odd_case: "?d mod 2 \<noteq> 0 \<Longrightarrow> 2 * (?d div 2) + 1 = ?d" by presburger
  show ?thesis
    using assms even_case odd_case by (auto simp: Let_def)
qed

lemma resize_shrink_step:
  assumes "window < end_pos r - start r"
  shows "resize (Suc depth) r window limit = resize depth (recentred r) window limit"
  using assms by (simp add: recentred_def Let_def)

lemma recentred_width: "end_pos (recentred r) - start (recentred r) = 1"
  by (simp add: recentred_def Let_def)

lemma resize_width_aux:
  assumes "1 \<le> window"
  shows "\<exists>r'. resize (Suc (Suc depth)) r window limit = Some r' \<and> end_pos r' - start r' = window"
proof -
  consider (grow) "end_pos r - start r < window"
    | (shrink) "window < end_pos r - start r"
    | (same) "window = end_pos r - start r"
    by linarith
  then show ?thesis
  proof cases
    case grow
    then show ?thesis by (rule resize_grow_width)
  next
    case same
    then show ?thesis by simp
  next
    case shrink
    have step: "resize (Suc (Suc depth)) r window limit
                = resize (Suc depth) (recentred r) window limit"
      using shrink by (rule resize_shrink_step)
    show ?thesis
    proof (cases "window = 1")
      case True
      then have "resize (Suc depth) (recentred r) window limit = Some (recentred r)"
        using recentred_width [of r] by simp
      with step True show ?thesis by (simp add: recentred_width)
    next
      case False
      with assms have "end_pos (recentred r) - start (recentred r) < window"
        by (simp add: recentred_width)
      then have "\<exists>r'. resize (Suc depth) (recentred r) window limit = Some r'
                   \<and> end_pos r' - start r' = window"
        by (rule resize_grow_width)
      with step show ?thesis by simp
    qed
  qed
qed

lemma resize_window_below_one:
  assumes "window < 1" and "1 \<le> end_pos r - start r"
  shows "resize depth r window limit = None"
  using assms(2)
proof (induction depth arbitrary: r)
  case 0
  then show ?case by simp
next
  case (Suc depth)
  have "window < end_pos r - start r" using assms(1) Suc.prems by simp
  then have "resize (Suc depth) r window limit = resize depth (recentred r) window limit"
    by (rule resize_shrink_step)
  moreover have "resize depth (recentred r) window limit = None"
    by (rule Suc.IH) (simp add: recentred_width)
  ultimately show ?case by simp
qed

text \<open>
  Claim C4 as stated fails for a region of width 0, which is valid (\<open>start \<le> end\<close>):
  \<open>[5, 5)\<close> resized to window 3 becomes \<open>[4, 7)\<close>, and resizing that back to the
  original width 0 never returns: each call shrinks to width 1 and calls itself again,
  until the call depth (1000 here) is used up.
\<close>

theorem resize_back_to_zero_width:
  "start \<lparr>chrom = ''chr1'', start = 5, end_pos = 5, strand = ''+'', info = [], offset = 0\<rparr>
     \<le> end_pos \<lparr>chrom = ''chr1'', start = 5, end_pos = 5, strand = ''+'', info = [], offset = 0\<rparr>
   \<and> resize (Suc (Suc 0))
        \<lparr>chrom = ''chr1'', start = 5, end_pos = 5, strand = ''+'', info = [], offset = 0\<rparr>
        3 None
      = Some \<lparr>chrom = ''chr1'', start = 4, end_pos = 7, strand = ''+'', info = [], offset = 1\<rparr>
   \<and> resize 1000
        \<lparr>chrom = ''chr1'', start = 4, end_pos = 7, strand = ''+'', info = [], offset = 1\<rparr>
        (end_pos \<lparr>chrom = ''chr1'', start = 5, end_pos = 5, strand = ''+'', info = [], offset = 0\<rparr>
         - start \<lparr>chrom = ''chr1'', start = 5, end_pos = 5, strand = ''+'', info = [], offset = 0\<rparr>)
        None
      = None"
proof -
  have "resize 1000
          \<lparr>chrom = ''chr1'', start = 4, end_pos = 7, strand = ''+'', info = [], offset = 1\<rparr>
          0 None = None"
    by (rule resize_window_below_one) simp_all
  then show ?thesis by (simp add: truthy_def Let_def)
qed

text \<open>
  Claim C4, amended. For every valid region (\<open>start \<le> end\<close>), every window \<open>w \<ge> 1\<close>
  and any limit, \<^verbatim>\<open>resize(w, limit)\<close> returns (two nested calls are enough) and leaves a
  region of width exactly \<open>w\<close>, whichever branch ran, the clamped ones included. Hence
  resizing the result back to the original width yields a region of that width again,
  provided the original width is at least 1.
\<close>

theorem resize_width:
  assumes "start r \<le> end_pos r" and "1 \<le> window"
  shows "\<exists>r'. resize (Suc (Suc depth)) r window limit = Some r'
           \<and> end_pos r' - start r' = window
           \<and> (1 \<le> end_pos r - start r \<longrightarrow>
                (\<exists>r''. resize (Suc (Suc depth')) r' (end_pos r - start r) limit' = Some r''
                   \<and> end_pos r'' - start r'' = end_pos r - start r))"
proof -
  from assms(2) obtain r' where
    r': "resize (Suc (Suc depth)) r window limit = Some r'" "end_pos r' - start r' = window"
    using resize_width_aux by blast
  have "\<exists>r''. resize (Suc (Suc depth')) r' (end_pos r - start r) limit' = Some r''
          \<and> end_pos r'' - start r'' = end_pos r - start r"
    if "1 \<le> end_pos r - start r"
    using that by (rule resize_width_aux)
  with r' show ?thesis by blast
qed

theorem resize_width_witness:
  "start \<lparr>chrom = ''chr1'', start = 100, end_pos = 101, strand = ''+'', info = [], offset = 0\<rparr>
     \<le> end_pos \<lparr>chrom = ''chr1'', start = 100, end_pos = 101, strand = ''+'', info = [], offset = 0\<rparr>
   \<and> (1::int) \<le> 6
   \<and> resize (Suc (Suc 0))
        \<lparr>chrom = ''chr1'', start = 100, end_pos = 101, strand = ''+'', info = [], offset = 0\<rparr>
        6 (Some 1000)
      = Some \<lparr>chrom = ''chr1'', start = 98, end_pos = 104, strand = ''+'', info = [], offset = 1\<rparr>
   \<and> resize (Suc (Suc 0))
        \<lparr>chrom = ''chr1'', start = 98, end_pos = 104, strand = ''+'', info = [], offset = 1\<rparr>
        1 (Some 1000)
      = Some \<lparr>chrom = ''chr1'', start = 100, end_pos = 101, strand = ''+'', info = [], offset = 1\<rparr>"
  using resize_width [of "\<lparr>chrom = ''chr1'', start = 100, end_pos = 101, strand = ''+'',
                            info = [], offset = 0\<rparr>" 6 0 "Some 1000" 0 "Some 1000"]
  by (simp add: truthy_def Let_def)

text \<open>
  Claim C10. For every valid region and every window \<open>w \<ge> 1\<close> (any limit),
  \<^verbatim>\<open>resize(w, limit)\<close> terminates. A call that does not shrink returns without calling
  itself. A call that shrinks first reduces the region to width exactly 1 and then
  calls itself once (it cannot finish without that call); the inner call is not a
  shrink any more, so it takes the grow or the no-op path and returns without a
  further call. For \<open>w = 0\<close> the guarantee is lost: on a region of width 2 or more (of
  width 1 already) no call depth is enough.
\<close>

theorem resize_terminates:
  assumes "start r \<le> end_pos r" and "1 \<le> window"
  shows "resize (Suc (Suc depth)) r window limit \<noteq> None
         \<and> (\<not> window < end_pos r - start r \<longrightarrow> resize (Suc 0) r window limit \<noteq> None)
         \<and> (window < end_pos r - start r \<longrightarrow>
              resize (Suc 0) r window limit = None
              \<and> end_pos (recentred r) - start (recentred r) = 1
              \<and> resize (Suc (Suc depth)) r window limit
                  = resize (Suc depth) (recentred r) window limit
              \<and> \<not> window < end_pos (recentred r) - start (recentred r)
              \<and> resize (Suc 0) (recentred r) window limit \<noteq> None
              \<and> resize (Suc 0) (recentred r) window limit
                  = resize (Suc depth) (recentred r) window limit)
         \<and> (2 \<le> end_pos r - start r \<longrightarrow> resize depth' r 0 limit = None)"
proof -
  have zero: "resize depth' r 0 limit = None" if "2 \<le> end_pos r - start r"
    using that by (intro resize_window_below_one) simp_all
  have total: "resize (Suc (Suc depth)) r window limit \<noteq> None"
    using resize_width_aux [OF assms(2), of depth r limit] by auto
  have direct: "resize (Suc 0) r window limit \<noteq> None" if "\<not> window < end_pos r - start r"
  proof (cases "end_pos r - start r < window")
    case True
    then show ?thesis using resize_grow_width [of r window 0 limit] by auto
  next
    case False
    with that show ?thesis by simp
  qed
  have inner: "\<exists>r'. resize (Suc d) (recentred r) window limit = Some r'
                 \<and> end_pos r' - start r' = window" for d
  proof (cases "window = 1")
    case True
    then show ?thesis using recentred_width [of r] by simp
  next
    case False
    with assms(2) have "end_pos (recentred r) - start (recentred r) < window"
      by (simp add: recentred_width)
    then show ?thesis by (rule resize_grow_width)
  qed
  have same: "resize (Suc 0) (recentred r) window limit
              = resize (Suc depth) (recentred r) window limit"
  proof (cases "window = 1")
    case True
    then show ?thesis using recentred_width [of r] by simp
  next
    case False
    with assms(2) have "end_pos (recentred r) - start (recentred r) < window"
      by (simp add: recentred_width)
    then show ?thesis by (simp add: Let_def)
  qed
  have shrink: "resize (Suc 0) r window limit = None
      \<and> end_pos (recentred r) - start (recentred r) = 1
      \<and> resize (Suc (Suc depth)) r window limit = resize (Suc depth) (recentred r) window limit
      \<and> \<not> window < end_pos (recentred r) - start (recentred r)
      \<and> resize (Suc 0) (recentred r) window limit \<noteq> None
      \<and> resize (Suc 0) (recentred r) window limit
          = resize (Suc depth) (recentred r) window limit"
    if lt: "window < end_pos r - start r"
  proof -
    have a: "resize (Suc 0) r window limit = None"
      using lt by (simp add: Let_def)
    have b: "resize (Suc (Suc depth)) r window limit
             = resize (Suc depth) (recentred r) window limit"
      using lt by (rule resize_shrink_step)
    have c: "\<not> window < end_pos (recentred r) - start (recentred r)"
      using assms(2) by (simp add: recentred_width)
    have d: "resize (Suc 0) (recentred r) window limit \<noteq> None"
      using inner [of 0] by auto
    from a b c d same recentred_width [of r] show ?thesis by blast
  qed
  from total direct shrink zero show ?thesis by blast
qed

theorem resize_terminates_witness:
  "start \<lparr>chrom = ''chr2'', start = 10, end_pos = 20, strand = ''-'', info = [], offset = 0\<rparr>
     \<le> end_pos \<lparr>chrom = ''chr2'', start = 10, end_pos = 20, strand = ''-'', info = [], offset = 0\<rparr>
   \<and> (1::int) \<le> 4
   \<and> (4::int) < end_pos \<lparr>chrom = ''chr2'', start = 10, end_pos = 20, strand = ''-'', info = [], offset = 0\<rparr>
             - start \<lparr>chrom = ''chr2'', start = 10, end_pos = 20, strand = ''-'', info = [], offset = 0\<rparr>
   \<and> resize (Suc 0)
        \<lparr>chrom = ''chr2'', start = 10, end_pos = 20, strand = ''-'', info = [], offset = 0\<rparr>
        4 None = None
   \<and> recentred \<lparr>chrom = ''chr2'', start = 10, end_pos = 20, strand = ''-'', info = [], offset = 0\<rparr>
      = \<lparr>chrom = ''chr2'', start = 15, end_pos = 16, strand = ''-'', info = [], offset = 0\<rparr>
   \<and> resize (Suc (Suc 0))
        \<lparr>chrom = ''chr2'', start = 10, end_pos = 20, strand = ''-'', info = [], offset = 0\<rparr>
        4 None
      = Some \<lparr>chrom = ''chr2'', start = 14, end_pos = 18, strand = ''-'', info = [], offset = 1\<rparr>
   \<and> resize 1000
        \<lparr>chrom = ''chr2'', start = 10, end_pos = 20, strand = ''-'', info = [], offset = 0\<rparr>
        0 None = None"
  using resize_terminates [of "\<lparr>chrom = ''chr2'', start = 10, end_pos = 20, strand = ''-'',
                                  info = [], offset = 0\<rparr>" 4 0 None 1000]
  by (simp add: truthy_def recentred_def Let_def)

subsection \<open>Insertion merger: the packed code\<close>

lemma base_lookup:
  assumes "is_base c"
  shows "\<exists>d. BASE_INDEX c = Some d \<and> digit4 d = Some (base_digit c)"
  using assms by (auto simp: is_base_def BASE_INDEX_def digit4_def base_digit_def)

lemma base_digit_range: "0 \<le> base_digit c \<and> base_digit c \<le> 3"
  by (simp add: base_digit_def)

lemma base_digit_inj:
  assumes "is_base c" and "is_base c'" and "base_digit c = base_digit c'"
  shows "c = c'"
  using assms by (auto simp: is_base_def base_digit_def split: if_splits)

lemma index_digits_value:
  assumes "list_all is_base bs"
  shows "\<exists>ds. index_digits bs = Some ds
           \<and> (\<forall>acc. int4_from acc ds
                  = Some (acc * 4 ^ length bs + base4_value (map base_digit bs)))"
  using assms
proof (induction bs)
  case Nil
  then show ?case by simp
next
  case (Cons b bs)
  then have "is_base b" by simp
  from Cons obtain ds where ds: "index_digits bs = Some ds"
    "\<And>acc. int4_from acc ds = Some (acc * 4 ^ length bs + base4_value (map base_digit bs))"
    by auto
  from \<open>is_base b\<close> obtain d where d: "BASE_INDEX b = Some d" "digit4 d = Some (base_digit b)"
    using base_lookup [of b] by auto
  have "index_digits (b # bs) = Some (d # ds)"
    using d(1) ds(1) by simp
  moreover have "int4_from acc (d # ds)
      = Some (acc * 4 ^ length (b # bs) + base4_value (map base_digit (b # bs)))" for acc
    using d(2) ds(2) by (simp add: algebra_simps)
  ultimately show ?case by blast
qed

lemma insert_seq_index_value:
  assumes "list_all is_base bs"
  shows "insert_seq_index bs = Inr (pack_insertion bs)"
proof -
  from assms obtain ds where ds: "index_digits bs = Some ds"
    "\<And>acc. int4_from acc ds = Some (acc * 4 ^ length bs + base4_value (map base_digit bs))"
    using index_digits_value by blast
  have "int4 (CHR ''1'' # ds) = Some (base4_value (1 # map base_digit bs))"
    using ds(2) [of 1] by (simp add: int4_def digit4_def)
  with ds(1) show ?thesis
    by (simp add: insert_seq_index_def pack_insertion_def)
qed

lemma base4_value_range:
  assumes "\<forall>d \<in> set ds. 0 \<le> d \<and> d \<le> 3"
  shows "0 \<le> base4_value ds \<and> base4_value ds < 4 ^ length ds"
  using assms
proof (induction ds)
  case Nil
  then show ?case by simp
next
  case (Cons d ds)
  then have ih: "0 \<le> base4_value ds" "base4_value ds < 4 ^ length ds" by auto
  from Cons.prems have d: "0 \<le> d" "d \<le> 3" by auto
  define p where "p = (4::int) ^ length ds"
  have "d * p \<le> 3 * p" and "0 \<le> d * p"
    using d by (simp_all add: p_def mult_right_mono)
  moreover have "0 \<le> base4_value ds" and "base4_value ds < p"
    using ih by (simp_all add: p_def)
  ultimately have "0 \<le> d * p + base4_value ds \<and> d * p + base4_value ds < 4 * p"
    by linarith
  then show ?case by (simp add: p_def)
qed

lemma base4_value_inj:
  assumes "length ds = length es"
    and "\<forall>d \<in> set ds. 0 \<le> d \<and> d \<le> 3" and "\<forall>e \<in> set es. 0 \<le> e \<and> e \<le> 3"
    and "base4_value ds = base4_value es"
  shows "ds = es"
  using assms
proof (induction ds es rule: list_induct2)
  case Nil
  then show ?case by simp
next
  case (Cons d ds e es)
  let ?p = "(4::int) ^ length ds"
  have rd: "0 \<le> base4_value ds" "base4_value ds < ?p"
    using base4_value_range [of ds] Cons.prems(1) by auto
  have re: "0 \<le> base4_value es" "base4_value es < ?p"
    using base4_value_range [of es] Cons.prems(2) Cons.hyps by auto
  have eq: "d * ?p + base4_value ds = e * ?p + base4_value es"
    using Cons.prems(3) Cons.hyps by simp
  have "d = e"
  proof (rule ccontr)
    assume "d \<noteq> e"
    then consider "d + 1 \<le> e" | "e + 1 \<le> d" by linarith
    then show False
    proof cases
      case 1
      then have "(d + 1) * ?p \<le> e * ?p" by (simp add: mult_right_mono)
      with eq rd re show False by (simp add: algebra_simps)
    next
      case 2
      then have "(e + 1) * ?p \<le> d * ?p" by (simp add: mult_right_mono)
      with eq rd re show False by (simp add: algebra_simps)
    qed
  qed
  with eq have "base4_value ds = base4_value es" by simp
  with Cons.IH Cons.prems \<open>d = e\<close> show ?case by simp
qed

lemma map_base_digit_inj:
  assumes "length bs = length bs'"
    and "list_all is_base bs" and "list_all is_base bs'"
    and "map base_digit bs = map base_digit bs'"
  shows "bs = bs'"
  using assms
proof (induction bs bs' rule: list_induct2)
  case Nil
  then show ?case by simp
next
  case (Cons b bs b' bs')
  then show ?case using base_digit_inj [of b b'] by simp
qed

lemma leading_one_value:
  "base4_value (1 # map base_digit bs) = 4 ^ length bs + base4_value (map base_digit bs)"
  by simp

lemma digits_of_bases_range: "\<forall>d \<in> set (map base_digit bs). 0 \<le> d \<and> d \<le> 3"
  using base_digit_range by simp

lemma pack_below_threshold:
  assumes "length bs < 32"
  shows "pack_insertion bs = 4 ^ length bs + base4_value (map base_digit bs)"
proof -
  have "base4_value (map base_digit bs) < 4 ^ length bs"
    using base4_value_range [OF digits_of_bases_range, of bs] by simp
  moreover have "(4::int) ^ length bs \<le> 4 ^ 31"
    using assms by (intro power_increasing) auto
  ultimately have "4 ^ length bs + base4_value (map base_digit bs) \<le> 9223372036854775807"
    by simp
  then show ?thesis by (simp add: pack_insertion_def)
qed

lemma pack_at_threshold:
  assumes "32 \<le> length bs"
  shows "pack_insertion bs = 9223372036854775807"
proof -
  have "0 \<le> base4_value (map base_digit bs)"
    using base4_value_range [OF digits_of_bases_range, of bs] by simp
  moreover have "(4::int) ^ 32 \<le> 4 ^ length bs"
    using assms by (intro power_increasing) auto
  ultimately have "9223372036854775807 \<le> 4 ^ length bs + base4_value (map base_digit bs)"
    by simp
  then show ?thesis by (simp add: pack_insertion_def)
qed

text \<open>
  Claim C6. For a run of bases (each one of A, C, G, T), \<^verbatim>\<open>insert_seq_index\<close> returns
  the base-4 number whose digits are a leading 1 followed by the bases' digits
  \<open>A:0, C:1, G:2, T:3\<close> in read order, saturated at \<open>9223372036854775807\<close>. A run
  shorter than 32 bases is below the overflow threshold: its code is the number itself,
  and two different runs of the same such length get different codes. A run of 32
  bases or more gets the saturation ceiling.
\<close>

theorem insert_seq_index_packs:
  assumes "list_all is_base bs" and "list_all is_base bs'"
  shows "insert_seq_index bs = Inr (pack_insertion bs)
         \<and> (length bs < 32 \<longrightarrow>
              insert_seq_index bs = Inr (base4_value (1 # map base_digit bs)))
         \<and> (length bs < 32 \<and> length bs' = length bs \<and> bs \<noteq> bs' \<longrightarrow>
              insert_seq_index bs \<noteq> insert_seq_index bs')
         \<and> (32 \<le> length bs \<longrightarrow> insert_seq_index bs = Inr 9223372036854775807)"
proof -
  have val: "insert_seq_index bs = Inr (pack_insertion bs)"
    using assms(1) by (rule insert_seq_index_value)
  have val': "insert_seq_index bs' = Inr (pack_insertion bs')"
    using assms(2) by (rule insert_seq_index_value)
  have exact: "insert_seq_index bs = Inr (base4_value (1 # map base_digit bs))"
    if "length bs < 32"
    using val pack_below_threshold [OF that] by simp
  have differ: "insert_seq_index bs \<noteq> insert_seq_index bs'"
    if short: "length bs < 32" and len: "length bs' = length bs" and ne: "bs \<noteq> bs'"
  proof
    assume "insert_seq_index bs = insert_seq_index bs'"
    with val val' have "pack_insertion bs = pack_insertion bs'" by simp
    then have "base4_value (map base_digit bs) = base4_value (map base_digit bs')"
      using pack_below_threshold [of bs] pack_below_threshold [of bs'] short len by simp
    then have "map base_digit bs = map base_digit bs'"
      using base4_value_inj [of "map base_digit bs" "map base_digit bs'"]
        digits_of_bases_range [of bs] digits_of_bases_range [of bs'] len by simp
    then have "bs = bs'"
      using map_base_digit_inj [of bs bs'] assms len by simp
    with ne show False by simp
  qed
  have sat: "insert_seq_index bs = Inr 9223372036854775807" if "32 \<le> length bs"
    using val pack_at_threshold [OF that] by simp
  from val exact differ sat show ?thesis by blast
qed

theorem insert_seq_index_packs_witness:
  "list_all is_base ''GAT'' \<and> list_all is_base ''GAC''
   \<and> length ''GAT'' < 32 \<and> length ''GAC'' = length ''GAT'' \<and> ''GAT'' \<noteq> ''GAC''
   \<and> insert_seq_index ''GAT'' = Inr 99 \<and> insert_seq_index ''GAC'' = Inr 97
   \<and> list_all is_base (replicate 32 (CHR ''A'')) \<and> 32 \<le> length (replicate 32 (CHR ''A''))
   \<and> insert_seq_index (replicate 32 (CHR ''A'')) = Inr 9223372036854775807"
proof -
  have a: "list_all is_base ''GAT''" and b: "list_all is_base ''GAC''"
    by (simp_all add: is_base_def)
  have c: "list_all is_base (replicate 32 (CHR ''A''))"
    by (simp add: list_all_iff is_base_def)
  have "insert_seq_index ''GAT'' = Inr 99"
    using insert_seq_index_packs [OF a b] by (simp add: pack_insertion_def base_digit_def)
  moreover have "insert_seq_index ''GAC'' = Inr 97"
    using insert_seq_index_packs [OF b a] by (simp add: pack_insertion_def base_digit_def)
  moreover have "insert_seq_index (replicate 32 (CHR ''A'')) = Inr 9223372036854775807"
  proof -
    have "32 \<le> length (replicate 32 (CHR ''A''))" by simp
    with insert_seq_index_packs [OF c a] show ?thesis by blast
  qed
  ultimately show ?thesis using a b c by simp
qed

subsection \<open>Insertion merger: a merge in the exact arithmetic\<close>

lemma exact_factor: "0 < 1 - (10::real) powr (- 3) \<and> 1 - (10::real) powr (- 3) < 1"
proof -
  have "(10::real) powr (- 3) < 10 powr 0"
    by (rule powr_less_mono) simp_all
  moreover have "0 < (10::real) powr (- 3)" by simp
  ultimately show ?thesis by simp
qed

lemma exact_merge_thirty:
  "insert_requality exact_arithmetic [30, 30]
   = Inr (- 10 * log 10 (1 - (1 - 10 powr (- 3)) * (1 - 10 powr (- 3))))"
proof -
  define f where "f = 1 - (10::real) powr (- 3)"
  have f: "0 < f" "f < 1" using exact_factor by (simp_all add: f_def)
  have "f * f < 1 * 1" using f by (intro mult_strict_mono) simp_all
  then have pos: "\<not> 1 - f * f \<le> 0" by simp
  have "requality_loop exact_arithmetic 1 [30, 30] = Inr (f * f)"
    by (simp add: exact_arithmetic_def f_def)
  then show ?thesis
    using pos by (simp add: insert_requality_def exact_arithmetic_def f_def)
qed

subsection \<open>Read alignment encoder: rows accessed by the scan\<close>

lemmas statement_defs =
  store_insert_code_def store_base_def store_quality_def merge_into_row_def
  merge_with_base_def clear_run_def extend_run_def set_one_hot_def set_quality_def raise_def

lemma ref_positions_simps:
  "ref_positions [] = []"
  "ref_positions ((r, None) # ps) = ref_positions ps"
  "ref_positions ((r, Some x) # ps) = x # ref_positions ps"
  by (simp_all add: ref_positions_def List.map_filter_simps)

lemma do_all_rows:
  assumes "list_all (\<lambda>f. \<forall>s. set (rows (f s)) \<subseteq> insert row (set (rows s))) fs"
  shows "set (rows (do_all fs st)) \<subseteq> insert row (set (rows st))"
  using assms
proof (induction fs arbitrary: st)
  case Nil
  then show ?case by (auto simp: do_all_def)
next
  case (Cons f fs)
  let ?s = "if raised st = None then f st else st"
  have "set (rows ?s) \<subseteq> insert row (set (rows st))"
    using Cons.prems by auto
  moreover have "set (rows (do_all fs ?s)) \<subseteq> insert row (set (rows ?s))"
    using Cons.IH [of ?s] Cons.prems by simp
  moreover have "do_all (f # fs) st = do_all fs ?s"
    by (simp add: do_all_def)
  ultimately show ?case by auto
qed

lemma do_all_in_range:
  assumes "list_all (\<lambda>f. \<forall>s. in_range (f s) = in_range s) fs"
  shows "in_range (do_all fs st) = in_range st"
  using assms
proof (induction fs arbitrary: st)
  case Nil
  then show ?case by (simp add: do_all_def)
next
  case (Cons f fs)
  let ?s = "if raised st = None then f st else st"
  have "in_range ?s = in_range st" using Cons.prems by simp
  moreover have "in_range (do_all fs ?s) = in_range ?s"
    using Cons.IH [of ?s] Cons.prems by simp
  moreover have "do_all (f # fs) st = do_all fs ?s"
    by (simp add: do_all_def)
  ultimately show ?case by simp
qed

lemma statement_rows:
  "set (rows (set_one_hot row ch v s)) \<subseteq> insert row (set (rows s))"
  "set (rows (set_quality ar row q s)) \<subseteq> insert row (set (rows s))"
  "set (rows (store_insert_code row s)) \<subseteq> insert row (set (rows s))"
  "set (rows (store_base rd row ri s)) \<subseteq> insert row (set (rows s))"
  "set (rows (store_quality ar rd row ri s)) \<subseteq> insert row (set (rows s))"
  "set (rows (merge_into_row ar row s)) \<subseteq> insert row (set (rows s))"
  "set (rows (merge_with_base ar rd row ri s)) \<subseteq> insert row (set (rows s))"
  "set (rows (clear_run s)) \<subseteq> insert row (set (rows s))"
  by (auto simp: statement_defs split: option.splits sum.splits)

lemma statement_in_range:
  "in_range (set_one_hot row ch v s) = in_range s"
  "in_range (set_quality ar row q s) = in_range s"
  "in_range (store_insert_code row s) = in_range s"
  "in_range (store_base rd row ri s) = in_range s"
  "in_range (store_quality ar rd row ri s) = in_range s"
  "in_range (merge_into_row ar row s) = in_range s"
  "in_range (merge_with_base ar rd row ri s) = in_range s"
  "in_range (clear_run s) = in_range s"
  "in_range (extend_run ar rd ri s) = in_range s"
  by (auto simp: statement_defs split: option.splits sum.splits)

lemma extend_run_rows: "rows (extend_run ar rd ri s) = rows s"
  by (auto simp: statement_defs split: option.splits)

lemma encode_pair_in_range: "in_range (encode_pair ar rd rg ri rf st) = in_range st"
  unfolding encode_pair_def
  by (simp add: statement_in_range do_all_in_range)

lemma encode_pair_rows:
  assumes "r \<in> set (rows (encode_pair ar rd rg ri rf st))"
  shows "r \<in> set (rows st)
         \<or> (truthy rf \<and> (r = the rf - start rg
                          \<or> (insert_seq_list st \<noteq> [] \<and> r = the rf - start rg - 1)))"
proof -
  have fwd: "set (rows (do_all [store_insert_code (the rf - start rg - 1),
                               merge_into_row ar (the rf - start rg - 1), clear_run] st))
             \<subseteq> insert (the rf - start rg - 1) (set (rows st))"
    by (rule do_all_rows) (simp add: statement_rows)
  have rev_match: "set (rows (do_all [store_insert_code (the rf - start rg),
                               store_base rd (the rf - start rg) (the ri),
                               merge_with_base ar rd (the rf - start rg) (the ri), clear_run] st))
             \<subseteq> insert (the rf - start rg) (set (rows st))"
    by (rule do_all_rows) (simp add: statement_rows)
  have plain: "set (rows (do_all [store_base rd (the rf - start rg) (the ri),
                               store_quality ar rd (the rf - start rg) (the ri)] st))
             \<subseteq> insert (the rf - start rg) (set (rows st))"
    by (rule do_all_rows) (simp add: statement_rows)
  have rev_del: "set (rows (do_all [store_insert_code (the rf - start rg),
                               set_one_hot (the rf - start rg) 4 1, clear_run] st))
             \<subseteq> insert (the rf - start rg) (set (rows st))"
    by (rule do_all_rows) (simp add: statement_rows)
  have del: "set (rows (set_one_hot (the rf - start rg) 4 1 st))
             \<subseteq> insert (the rf - start rg) (set (rows st))"
    by (rule statement_rows)
  show ?thesis
    using assms fwd rev_match plain rev_del del
    unfolding encode_pair_def
    by (auto simp: extend_run_rows split: if_splits)
qed

lemma scan_rows:
  assumes "int w = end_pos rg - start rg" and "0 < w"
    and "sorted_wrt (<) (ref_positions ps)"
    and "in_range st \<Longrightarrow> list_all (\<lambda>x. start rg < x) (ref_positions ps)"
    and "\<not> in_range st \<Longrightarrow> insert_seq_list st = []"
    and "list_all (\<lambda>r. 0 \<le> r \<and> r < int w) (rows st)"
  shows "list_all (\<lambda>r. 0 \<le> r \<and> r < int w) (rows (scan ar rd rg st ps))"
  using assms(3-6)
proof (induction ps arbitrary: st)
  case Nil
  then show ?case by simp
next
  case (Cons p ps)
  obtain ri rf where p: "p = (ri, rf)" by (cases p)
  let ?ok = "list_all (\<lambda>r. 0 \<le> r \<and> r < int w)"
  show ?case
  proof (cases rf)
    case None
    let ?st2 = "if in_range st then encode_pair ar rd rg ri None st else st"
    have step: "scan ar rd rg st (p # ps)
                = (if raised ?st2 \<noteq> None then ?st2 else scan ar rd rg ?st2 ps)"
      by (simp add: p None truthy_def Let_def)
    have rows2: "?ok (rows ?st2)"
      using Cons.prems(4) encode_pair_rows [of _ ar rd rg ri None st]
      by (auto simp: list_all_iff truthy_def)
    have inr: "in_range ?st2 = in_range st"
      by (simp add: encode_pair_in_range)
    have "?ok (rows (scan ar rd rg ?st2 ps))"
    proof (rule Cons.IH)
      show "sorted_wrt (<) (ref_positions ps)"
        using Cons.prems(1) by (simp add: p None ref_positions_simps)
      show "list_all (\<lambda>x. start rg < x) (ref_positions ps)" if "in_range ?st2"
        using that inr Cons.prems(2) by (simp add: p None ref_positions_simps)
      show "insert_seq_list ?st2 = []" if "\<not> in_range ?st2"
        using that inr Cons.prems(3) by simp
      show "?ok (rows ?st2)" by (rule rows2)
    qed
    with rows2 step show ?thesis by simp
  next
    case (Some x)
    have sorted_tail: "sorted_wrt (<) (ref_positions ps)"
      and above_x: "list_all (\<lambda>y. x < y) (ref_positions ps)"
      using Cons.prems(1) by (simp_all add: p Some ref_positions_simps list_all_iff)
    show ?thesis
    proof (cases "x \<noteq> start rg \<and> x \<noteq> 0 \<and> end_pos rg \<le> x")
      case True
      then have "scan ar rd rg st (p # ps) = st"
        by (simp add: p Some truthy_def)
      with Cons.prems(4) show ?thesis by simp
    next
      case no_break: False
      let ?st1 = "if x = start rg then st\<lparr>in_range := True\<rparr> else st"
      let ?st2 = "if in_range ?st1 then encode_pair ar rd rg ri (Some x) ?st1 else ?st1"
      have step: "scan ar rd rg st (p # ps)
                  = (if raised ?st2 \<noteq> None then ?st2 else scan ar rd rg ?st2 ps)"
      proof -
        have "\<not> (Some x \<noteq> Some (start rg) \<and> truthy (Some x) \<and> end_pos rg \<le> the (Some x))"
          using no_break by (simp add: truthy_def)
        then have "scan ar rd rg st (p # ps)
            = (let st1 = (if Some x = Some (start rg) then st\<lparr>in_range := True\<rparr> else st);
                   st2 = (if in_range st1 then encode_pair ar rd rg ri (Some x) st1 else st1)
               in if raised st2 \<noteq> None then st2 else scan ar rd rg st2 ps)"
          unfolding p Some scan.simps by (rule if_not_P)
        then show ?thesis by (simp add: Let_def)
      qed
      have inr: "in_range ?st2 = in_range ?st1"
        by (simp add: encode_pair_in_range)
      have rows1: "?ok (rows ?st1)"
        using Cons.prems(4) by simp
      have fresh: "\<not> in_range st \<and> insert_seq_list st = []" if "x = start rg"
      proof -
        have "\<not> in_range st"
        proof
          assume "in_range st"
          then have "start rg < x"
            using Cons.prems(2) by (simp add: p Some ref_positions_simps)
          with that show False by simp
        qed
        with Cons.prems(3) show ?thesis by simp
      qed
      have inside: "start rg < x" if "x \<noteq> start rg" and "in_range st"
        using that Cons.prems(2) by (simp add: p Some ref_positions_simps)
      have rows2: "?ok (rows ?st2)"
      proof (cases "in_range ?st1")
        case False
        with rows1 show ?thesis by simp
      next
        case True
        have "0 \<le> r \<and> r < int w" if r: "r \<in> set (rows (encode_pair ar rd rg ri (Some x) ?st1))" for r
        proof -
          from encode_pair_rows [OF r] consider
            (old) "r \<in> set (rows ?st1)"
            | (row) "x \<noteq> 0" "r = x - start rg"
            | (prev) "x \<noteq> 0" "insert_seq_list ?st1 \<noteq> []" "r = x - start rg - 1"
            by (auto simp: truthy_def)
          then show ?thesis
          proof cases
            case old
            with rows1 show ?thesis by (simp add: list_all_iff)
          next
            case row
            show ?thesis
            proof (cases "x = start rg")
              case True
              with row assms(2) show ?thesis by simp
            next
              case False
              with True have "start rg < x" using inside by simp
              moreover from False row(1) no_break have "x < end_pos rg" by simp
              ultimately show ?thesis using row(2) assms(1) by simp
            qed
          next
            case prev
            have ne: "x \<noteq> start rg"
            proof
              assume "x = start rg"
              with fresh have "insert_seq_list ?st1 = []" by simp
              with prev(2) show False by simp
            qed
            with True have "start rg < x" using inside by simp
            moreover from ne prev(1) no_break have "x < end_pos rg" by simp
            ultimately show ?thesis using prev(3) assms(1) by simp
          qed
        qed
        with True show ?thesis by (simp add: list_all_iff)
      qed
      have "?ok (rows (scan ar rd rg ?st2 ps))"
      proof (rule Cons.IH)
        show "sorted_wrt (<) (ref_positions ps)" by (rule sorted_tail)
        show "list_all (\<lambda>y. start rg < y) (ref_positions ps)" if "in_range ?st2"
        proof (cases "x = start rg")
          case True
          with above_x show ?thesis by simp
        next
          case False
          with that inr have "in_range st" by simp
          then show ?thesis
            using Cons.prems(2) by (simp add: p Some ref_positions_simps)
        qed
        show "insert_seq_list ?st2 = []" if "\<not> in_range ?st2"
        proof -
          from that inr have "\<not> in_range ?st1" by simp
          then have "x \<noteq> start rg" and "\<not> in_range st" by (auto split: if_splits)
          with Cons.prems(3) show ?thesis by simp
        qed
        show "?ok (rows ?st2)" by (rule rows2)
      qed
      with rows2 step show ?thesis by simp
    qed
  qed
qed

lemmas encoder_defs =
  get_read_alignment_def accessed_rows_def read_strand_def init_state_def encode_pair_def
  do_all_def statement_defs norm_index_def py_index_def truthy_def any_set_def
  BASE_INTS_def Let_def

lemma exact_values:
  "py_int exact_arithmetic n = of_int n" "to_float32 exact_arithmetic x = x"
  by (simp_all add: exact_arithmetic_def)

lemma single_base_codes:
  "insert_seq_index ''A'' = Inr 4" "insert_seq_index ''C'' = Inr 5"
  "insert_seq_index ''G'' = Inr 6" "insert_seq_index ''T'' = Inr 7"
  by (simp_all add: insert_seq_index_def BASE_INDEX_def int4_def digit4_def)

text \<open>
  Claim C7. For a read whose reference positions are strictly increasing, as the
  alignment library yields them, and a region with
  \<open>window = end - start \<ge> 1\<close>, every row index the encoder uses on the alignment
  tensor and the quality vector lies in \<open>[0, window)\<close>, the \<open>row - 1\<close> accesses of the
  forward-strand insertion fold included.
\<close>

theorem encoder_rows_in_window:
  assumes "int ali_window = end_pos rg - start rg" and "1 \<le> ali_window"
    and "sorted_wrt (<) (ref_positions (get_aligned_pairs rd))"
  shows "list_all (\<lambda>row. 0 \<le> row \<and> row < int ali_window) (accessed_rows ar rd rg ali_window)"
proof (cases "read_strand rd \<noteq> strand rg")
  case True
  then show ?thesis by (simp add: accessed_rows_def)
next
  case False
  have "list_all (\<lambda>row. 0 \<le> row \<and> row < int ali_window)
          (rows (scan ar rd rg (init_state ar ali_window) (get_aligned_pairs rd)))"
  proof (rule scan_rows)
    show "int ali_window = end_pos rg - start rg" by (rule assms(1))
    show "0 < ali_window" using assms(2) by simp
    show "sorted_wrt (<) (ref_positions (get_aligned_pairs rd))" by (rule assms(3))
    show "list_all (\<lambda>x. start rg < x) (ref_positions (get_aligned_pairs rd))"
      if "in_range (init_state ar ali_window)"
      using that by (simp add: init_state_def)
    show "insert_seq_list (init_state ar ali_window) = []"
      by (simp add: init_state_def)
    show "list_all (\<lambda>r. 0 \<le> r \<and> r < int ali_window) (rows (init_state ar ali_window))"
      by (simp add: init_state_def)
  qed
  with False show ?thesis by (simp add: accessed_rows_def)
qed

theorem encoder_rows_in_window_witness:
  "int 3 = end_pos \<lparr>chrom = ''chr1'', start = 100, end_pos = 103, strand = ''+'', info = [], offset = 0\<rparr>
           - start \<lparr>chrom = ''chr1'', start = 100, end_pos = 103, strand = ''+'', info = [], offset = 0\<rparr>
   \<and> (1::nat) \<le> 3
   \<and> sorted_wrt (<) (ref_positions [(Some 1, Some 100), (Some 2, None), (Some 3, Some 101),
                                      (Some 4, Some 102)])
   \<and> accessed_rows exact_arithmetic
        \<lparr>is_reverse = False, query_name = ''r1'', query_sequence = ''TACGT'',
          query_qualities = [30, 30, 30, 30, 30],
          get_aligned_pairs = [(Some 1, Some 100), (Some 2, None), (Some 3, Some 101),
                               (Some 4, Some 102)]\<rparr>
        \<lparr>chrom = ''chr1'', start = 100, end_pos = 103, strand = ''+'', info = [], offset = 0\<rparr> 3
      = [0, 0, 0, 0, 0, 2, 2]
   \<and> list_all (\<lambda>row. 0 \<le> row \<and> row < int 3) [0, 0, 0, 0, 0, 2, 2]"
proof -
  let ?rg = "\<lparr>chrom = ''chr1'', start = 100, end_pos = 103, strand = ''+'', info = [], offset = 0\<rparr>"
  let ?rd = "\<lparr>is_reverse = False, query_name = ''r1'', query_sequence = ''TACGT'',
          query_qualities = [30, 30, 30, 30, 30],
          get_aligned_pairs = [(Some 1, Some 100), (Some 2, None), (Some 3, Some 101),
                               (Some 4, Some 102)]\<rparr>"
  have a: "int 3 = end_pos ?rg - start ?rg" by simp
  have b: "(1::nat) \<le> 3" by simp
  have c: "sorted_wrt (<) (ref_positions (get_aligned_pairs ?rd))"
    by (simp add: ref_positions_simps)
  have d: "accessed_rows exact_arithmetic ?rd ?rg 3 = [0, 0, 0, 0, 0, 2, 2]"
    by (simp add: encoder_defs exact_values single_base_codes exact_merge_thirty)
  from encoder_rows_in_window [OF a b c, of exact_arithmetic] d
  have "list_all (\<lambda>row. 0 \<le> row \<and> row < int 3) [0, 0, 0, 0, 0, 2, 2]" by simp
  with a b c d show ?thesis by simp
qed

subsection \<open>Read alignment encoder: what is recorded for a pair\<close>

text \<open>
  Claim C1, evaluated on the code, for every arithmetic. A forward-strand read matches
  base A at reference position 100, inserts base C, and then either matches base G or
  has a deletion at position 101, in the region \<open>[100, 102)\<close>. The fold merges the
  quality at row 0 with the run; if the merge raises, so does the encoder; otherwise
  the fold writes the packed code 5 and the merged quality at row 0, and that is all:
  row 1 stays zero, so neither the matched G (channel 2, quality 30) nor the deletion
  (channel 4) is recorded. On the reverse strand the same pairs do record the event at
  row 1.
\<close>

theorem forward_fold_skips_event:
  "get_read_alignment ar
     \<lparr>is_reverse = False, query_name = ''r1'', query_sequence = ''TACG'',
       query_qualities = [30, 30, 30, 30],
       get_aligned_pairs = [(Some 1, Some 100), (Some 2, None), (Some 3, Some 101)]\<rparr>
     \<lparr>chrom = ''chr1'', start = 100, end_pos = 102, strand = ''+'', info = [], offset = 0\<rparr> 2
   = (case insert_requality ar [to_float32 ar (py_int ar 30), py_int ar 30] of
        Inl e \<Rightarrow> Inl e
      | Inr m \<Rightarrow>
          Inr (Some \<lparr>read_id = ''r1'',
                      alignment = [[1, 0, 0, 0, 0, 5], [0, 0, 0, 0, 0, 0]],
                      quality = [to_float32 ar m, to_float32 ar (py_int ar 0)]\<rparr>))
   \<and> get_read_alignment ar
     \<lparr>is_reverse = False, query_name = ''r1'', query_sequence = ''TACG'',
       query_qualities = [30, 30, 30, 30],
       get_aligned_pairs = [(Some 1, Some 100), (Some 2, None), (None, Some 101)]\<rparr>
     \<lparr>chrom = ''chr1'', start = 100, end_pos = 102, strand = ''+'', info = [], offset = 0\<rparr> 2
   = (case insert_requality ar [to_float32 ar (py_int ar 30), py_int ar 30] of
        Inl e \<Rightarrow> Inl e
      | Inr m \<Rightarrow>
          Inr (Some \<lparr>read_id = ''r1'',
                      alignment = [[1, 0, 0, 0, 0, 5], [0, 0, 0, 0, 0, 0]],
                      quality = [to_float32 ar m, to_float32 ar (py_int ar 0)]\<rparr>))
   \<and> get_read_alignment ar
     \<lparr>is_reverse = True, query_name = ''r1'', query_sequence = ''TACG'',
       query_qualities = [30, 30, 30, 30],
       get_aligned_pairs = [(Some 1, Some 100), (Some 2, None), (Some 3, Some 101)]\<rparr>
     \<lparr>chrom = ''chr1'', start = 100, end_pos = 102, strand = ''-'', info = [], offset = 0\<rparr> 2
   = (case insert_requality ar [py_int ar 30, py_int ar 30] of
        Inl e \<Rightarrow> Inl e
      | Inr m \<Rightarrow>
          Inr (Some \<lparr>read_id = ''r1'',
                      alignment = [[1, 0, 0, 0, 0, 0], [0, 0, 1, 0, 0, 5]],
                      quality = [to_float32 ar (py_int ar 30), to_float32 ar m]\<rparr>))
   \<and> get_read_alignment ar
     \<lparr>is_reverse = True, query_name = ''r1'', query_sequence = ''TACG'',
       query_qualities = [30, 30, 30, 30],
       get_aligned_pairs = [(Some 1, Some 100), (Some 2, None), (None, Some 101)]\<rparr>
     \<lparr>chrom = ''chr1'', start = 100, end_pos = 102, strand = ''-'', info = [], offset = 0\<rparr> 2
   = Inr (Some \<lparr>read_id = ''r1'',
                 alignment = [[1, 0, 0, 0, 0, 0], [0, 0, 0, 0, 1, 5]],
                 quality = [to_float32 ar (py_int ar 30), to_float32 ar (py_int ar 0)]\<rparr>)"
proof -
  have fwd: ?thesis
    if "insert_requality ar [to_float32 ar (py_int ar 30), py_int ar 30] = x"
      and "insert_requality ar [py_int ar 30, py_int ar 30] = y" for x y
    using that
    by (cases x; cases y) (simp_all add: encoder_defs single_base_codes eval_nat_numeral)
  show ?thesis by (rule fwd) simp_all
qed

text \<open>
  Claim C2, evaluated on the code, for every arithmetic. The pairs are classified by
  truth value, not by presence. A read whose position 0 (base A, quality 30) is aligned
  to reference position 100, the start of the region, gets a deletion at row 0: channel
  4 is set, channel 0 and the quality are not. A reverse-strand read whose position 1
  (base A) is aligned to reference position 0, the start of the region \<open>[0, 2)\<close>, has
  that base put on the insertion run: row 0 stays zero and the run is folded into
  row 1 as code 4 (when the merge of the two qualities does not raise).
\<close>

theorem position_zero_not_a_match:
  "get_read_alignment ar
     \<lparr>is_reverse = False, query_name = ''r2'', query_sequence = ''AC'',
       query_qualities = [30, 31],
       get_aligned_pairs = [(Some 0, Some 100), (Some 1, Some 101)]\<rparr>
     \<lparr>chrom = ''chr1'', start = 100, end_pos = 102, strand = ''+'', info = [], offset = 0\<rparr> 2
   = Inr (Some \<lparr>read_id = ''r2'',
                 alignment = [[0, 0, 0, 0, 1, 0], [0, 1, 0, 0, 0, 0]],
                 quality = [to_float32 ar (py_int ar 0), to_float32 ar (py_int ar 31)]\<rparr>)
   \<and> get_read_alignment ar
     \<lparr>is_reverse = True, query_name = ''r3'', query_sequence = ''TAC'',
       query_qualities = [30, 30, 31],
       get_aligned_pairs = [(Some 1, Some 0), (Some 2, Some 1)]\<rparr>
     \<lparr>chrom = ''chr1'', start = 0, end_pos = 2, strand = ''-'', info = [], offset = 0\<rparr> 2
   = (case insert_requality ar [py_int ar 30, py_int ar 31] of
        Inl e \<Rightarrow> Inl e
      | Inr m \<Rightarrow>
          Inr (Some \<lparr>read_id = ''r3'',
                      alignment = [[0, 0, 0, 0, 0, 0], [0, 1, 0, 0, 0, 4]],
                      quality = [to_float32 ar (py_int ar 0), to_float32 ar m]\<rparr>))"
proof -
  have rev: ?thesis if "insert_requality ar [py_int ar 30, py_int ar 31] = y" for y
    using that
    by (cases y) (simp_all add: encoder_defs single_base_codes eval_nat_numeral)
  show ?thesis by (rule rev) simp
qed

subsection \<open>Region batch driver: what is accumulated and in which order\<close>

lemma contributions_simps:
  "contributions ar rg w [] = []"
  "contributions ar rg w (rd # rds) =
     (case get_read_alignment ar rd rg w of
        Inr (Some f) \<Rightarrow> f # contributions ar rg w rds
      | _ \<Rightarrow> contributions ar rg w rds)"
  by (simp_all add: contributions_def List.map_filter_simps split: sum.splits option.splits)

lemma read_loop_arrays:
  "reads_alignment (read_loop ar rg w b rds)
     = reads_alignment b
       @ map alignment (contributions ar rg w (takeWhile (\<lambda>rd. \<not> isl (get_read_alignment ar rd rg w)) rds))
   \<and> reads_quality (read_loop ar rg w b rds)
     = reads_quality b
       @ map quality (contributions ar rg w (takeWhile (\<lambda>rd. \<not> isl (get_read_alignment ar rd rg w)) rds))"
proof (induction rds arbitrary: b)
  case Nil
  then show ?case by (simp add: contributions_simps)
next
  case (Cons rd rds)
  show ?case
  proof (cases "get_read_alignment ar rd rg w")
    case (Inl e)
    then show ?thesis by (simp add: contributions_simps)
  next
    case (Inr res)
    then show ?thesis
      using Cons.IH by (cases res) (simp_all add: contributions_simps)
  qed
qed

lemma read_loop_events:
  "\<exists>k. events (read_loop ar rg w b rds) = events b @ replicate k Fetch_read"
proof (induction rds arbitrary: b)
  case Nil
  show ?case by (rule exI [of _ 0]) simp
next
  case (Cons rd rds)
  show ?case
  proof (cases "get_read_alignment ar rd rg w")
    case (Inl e)
    show ?thesis by (rule exI [of _ 1]) (simp add: Inl)
  next
    case (Inr res)
    show ?thesis
    proof (cases res)
      case None
      let ?b = "b\<lparr>events := events b @ [Fetch_read]\<rparr>"
      from Cons.IH [of ?b]
      obtain k where k: "events (read_loop ar rg w ?b rds) = events ?b @ replicate k Fetch_read"
        by blast
      have "read_loop ar rg w b (rd # rds) = read_loop ar rg w ?b rds"
        by (simp add: Inr None)
      with k have "events (read_loop ar rg w b (rd # rds))
                   = events b @ replicate (Suc k) Fetch_read"
        by simp
      then show ?thesis by (rule exI)
    next
      case (Some f)
      let ?b = "b\<lparr>reads_alignment := reads_alignment b @ [alignment f],
                   reads_quality := reads_quality b @ [quality f],
                   events := events b @ [Fetch_read]\<rparr>"
      from Cons.IH [of ?b]
      obtain k where k: "events (read_loop ar rg w ?b rds) = events ?b @ replicate k Fetch_read"
        by blast
      have "read_loop ar rg w b (rd # rds) = read_loop ar rg w ?b rds"
        by (simp add: Inr Some)
      with k have "events (read_loop ar rg w b (rd # rds))
                   = events b @ replicate (Suc k) Fetch_read"
        by simp
      then show ?thesis by (rule exI)
    qed
  qed
qed

lemma read_loop_complete:
  assumes "list_all (\<lambda>rd. \<not> isl (get_read_alignment ar rd rg w)) rds"
  shows "events (read_loop ar rg w b rds) = events b @ replicate (length rds) Fetch_read
         \<and> failed (read_loop ar rg w b rds) = failed b"
  using assms
proof (induction rds arbitrary: b)
  case Nil
  then show ?case by simp
next
  case (Cons rd rds)
  then obtain res where res: "get_read_alignment ar rd rg w = Inr res"
    by (cases "get_read_alignment ar rd rg w") auto
  from Cons have rest: "list_all (\<lambda>rd. \<not> isl (get_read_alignment ar rd rg w)) rds" by simp
  show ?case
    using res Cons.IH [OF rest] by (cases res) (simp_all add: replicate_app_Cons_same)
qed

lemma read_loop_failed:
  "failed b = None \<Longrightarrow> failed (read_loop ar rg w b rds) \<noteq> None
     \<Longrightarrow> \<not> list_all (\<lambda>rd. \<not> isl (get_read_alignment ar rd rg w)) rds"
  using read_loop_complete [of ar rg w rds b] by auto

lemma paths_differ:
  "done_path d k \<noteq> alignment_path d k" "done_path d k \<noteq> quality_path d k"
  by (simp_all add: done_path_def alignment_path_def quality_path_def)

lemma marker_quiet_fetches:
  assumes "fs marker = None"
  shows "marker_needs_arrays marker pa pq fs written (replicate k Fetch_read @ rest)
         = marker_needs_arrays marker pa pq fs written rest"
  using assms by (induction k) (cases rest; simp)+

lemma marker_after_saves:
  assumes "fs marker = None" and "marker \<noteq> pa" and "marker \<noteq> pq"
  shows "marker_needs_arrays marker pa pq fs []
           [Close_source, Save pa a, Save pq q, Touch marker]"
  using assms by simp
lemma no_error_takeWhile:
  assumes "list_all (\<lambda>rd. \<not> isl (get_read_alignment ar rd rg w)) rds"
  shows "takeWhile (\<lambda>rd. \<not> isl (get_read_alignment ar rd rg w)) rds = rds"
  using assms by (simp add: takeWhile_eq_all_conv list_all_iff)

lemma get_region_alignment_skip:
  assumes "\<not> overwrite" and "fs (done_path d k) \<noteq> None"
  shows "get_region_alignment ar fs fetch (rg, k, bam, w, d, overwrite) = ([], None)"
  using assms by (simp add: get_region_alignment_def)

lemma get_region_alignment_run:
  assumes "overwrite \<or> fs (done_path d k) = None"
    and "list_all (\<lambda>rd. \<not> isl (get_read_alignment ar rd rg w))
           (fetch (chrom rg) (start rg) (end_pos rg))"
  shows "get_region_alignment ar fs fetch (rg, k, bam, w, d, overwrite)
         = (Open_source bam # replicate (length (fetch (chrom rg) (start rg) (end_pos rg))) Fetch_read
            @ [Close_source,
               Save (alignment_path d k)
                 (Alignment_array (map alignment
                    (contributions ar rg w (fetch (chrom rg) (start rg) (end_pos rg))))),
               Save (quality_path d k)
                 (Quality_array (map quality
                    (contributions ar rg w (fetch (chrom rg) (start rg) (end_pos rg))))),
               Touch (done_path d k)],
            None)"
proof -
  let ?rds = "fetch (chrom rg) (start rg) (end_pos rg)"
  let ?init = "\<lparr>reads_alignment = [], reads_quality = [],
              events = [Open_source bam], failed = None\<rparr>"
  let ?b = "read_loop ar rg w ?init ?rds"
  have ev: "events ?b = Open_source bam # replicate (length ?rds) Fetch_read"
    and ok: "failed ?b = None"
    using read_loop_complete [OF assms(2), of ?init] by simp_all
  have arr: "reads_alignment ?b = map alignment (contributions ar rg w ?rds)"
    "reads_quality ?b = map quality (contributions ar rg w ?rds)"
    using read_loop_arrays [of ar rg w ?init ?rds] no_error_takeWhile [OF assms(2)] by simp_all
  have "get_region_alignment ar fs fetch (rg, k, bam, w, d, overwrite)
        = (events ?b @ [Close_source,
             Save (alignment_path d k) (Alignment_array (reads_alignment ?b)),
             Save (quality_path d k) (Quality_array (reads_quality ?b)),
             Touch (done_path d k)], None)"
    using assms(1) ok by (auto simp: get_region_alignment_def Let_def)
  then show ?thesis unfolding ev arr by simp
qed

lemma get_region_alignment_marker:
  assumes "fs (done_path d k) = None"
  shows "marker_needs_arrays (done_path d k) (alignment_path d k) (quality_path d k) fs []
           (fst (get_region_alignment ar fs fetch (rg, k, bam, w, d, overwrite)))"
proof -
  let ?rds = "fetch (chrom rg) (start rg) (end_pos rg)"
  let ?init = "\<lparr>reads_alignment = [], reads_quality = [],
              events = [Open_source bam], failed = None\<rparr>"
  let ?b = "read_loop ar rg w ?init ?rds"
  let ?m = "done_path d k"
  let ?pa = "alignment_path d k"
  let ?pq = "quality_path d k"
  from read_loop_events [of ar rg w ?init ?rds]
  obtain n where ev: "events ?b = Open_source bam # replicate n Fetch_read" by auto
  have quiet: "marker_needs_arrays ?m ?pa ?pq fs [] (Open_source bam # replicate n Fetch_read @ rest)
               = marker_needs_arrays ?m ?pa ?pq fs [] rest" for rest
    using assms marker_quiet_fetches [of fs ?m ?pa ?pq "[]" n rest] by simp
  show ?thesis
  proof (cases "failed ?b")
    case None
    have "fst (get_region_alignment ar fs fetch (rg, k, bam, w, d, overwrite))
          = Open_source bam # replicate n Fetch_read
            @ [Close_source, Save ?pa (Alignment_array (reads_alignment ?b)),
               Save ?pq (Quality_array (reads_quality ?b)), Touch ?m]"
      using assms None ev by (simp add: get_region_alignment_def Let_def)
    moreover have "marker_needs_arrays ?m ?pa ?pq fs []
            [Close_source, Save ?pa (Alignment_array (reads_alignment ?b)),
             Save ?pq (Quality_array (reads_quality ?b)), Touch ?m]"
      using assms paths_differ [of d k] by (intro marker_after_saves)
    ultimately show ?thesis using quiet by simp
  next
    case (Some e)
    have "fst (get_region_alignment ar fs fetch (rg, k, bam, w, d, overwrite))
          = Open_source bam # replicate n Fetch_read @ []"
      using assms Some ev by (simp add: get_region_alignment_def Let_def)
    moreover have "marker_needs_arrays ?m ?pa ?pq fs [] []"
      using assms by simp
    ultimately show ?thesis using quiet [of "[]"] by simp
  qed
qed

lemma features_nonempty:
  assumes "get_read_alignment ar rd rg w = Inr (Some f)"
  shows "any_set (alignment f) \<and> read_strand rd = strand rg"
  using assms
  by (auto simp: get_read_alignment_def Let_def split: if_splits option.splits)

lemma contributions_nonempty: "list_all (\<lambda>f. any_set (alignment f)) (contributions ar rg w rds)"
proof (induction rds)
  case Nil
  then show ?case by (simp add: contributions_simps)
next
  case (Cons rd rds)
  then show ?case
    using features_nonempty [of ar rd rg w]
    by (auto simp: contributions_simps split: sum.splits option.splits)
qed

lemma contributions_length:
  "length (contributions ar rg w rds)
   = length (filter (\<lambda>rd. \<not> isl (get_read_alignment ar rd rg w)
                           \<and> get_read_alignment ar rd rg w \<noteq> Inr None) rds)"
  by (induction rds) (auto simp: contributions_simps split: sum.splits option.splits)
lemmas driver_defs =
  get_region_alignment_def done_path_def alignment_path_def quality_path_def replay_def

text \<open>
  Claim C8 as stated fails in its last part. In a run with overwrite requested and a
  marker left by an earlier run, the marker exists from the first state of the run on,
  before any array is written. And when the encoder raises in such a run (here
  \<^verbatim>\<open>KeyError\<close> on the base N), the run ends after one fetched read with no array
  written and the marker still there.
\<close>

theorem stale_marker_in_overwrite_run:
  "\<not> marker_needs_arrays ''out/k.ali.done'' ''out/k.reads_alignment.npy''
        ''out/k.reads_quality.npy'' [''out/k.ali.done'' \<mapsto> Empty_file] []
        (fst (get_region_alignment exact_arithmetic [''out/k.ali.done'' \<mapsto> Empty_file] (\<lambda>c s e. [])
           (\<lparr>chrom = ''chr1'', start = 100, end_pos = 102, strand = ''+'', info = [], offset = 0\<rparr>,
            ''k'', ''reads.bam'', 2, ''out'', True)))
   \<and> get_region_alignment exact_arithmetic [''out/k.ali.done'' \<mapsto> Empty_file]
        (\<lambda>c s e. [\<lparr>is_reverse = False, query_name = ''r4'', query_sequence = ''TN'',
                      query_qualities = [30, 30],
                      get_aligned_pairs = [(Some 1, Some 100)]\<rparr>])
        (\<lparr>chrom = ''chr1'', start = 100, end_pos = 102, strand = ''+'', info = [], offset = 0\<rparr>,
         ''k'', ''reads.bam'', 2, ''out'', True)
      = ([Open_source ''reads.bam'', Fetch_read], Some KeyError)
   \<and> replay [Open_source ''reads.bam'', Fetch_read] [''out/k.ali.done'' \<mapsto> Empty_file]
        ''out/k.ali.done'' = Some Empty_file"
  by (simp add: driver_defs encoder_defs exact_values)

text \<open>
  Claim C8, amended. If the marker exists and overwrite was not requested, the driver
  returns with an empty trace: the source is not opened, no read is fetched, no file is
  created or modified. Otherwise, when no read makes the encoder raise, the trace is:
  open the source, fetch every read, close, save the alignment tensor, save the
  quality matrix, touch the marker, each once and in this order. And in a run that
  starts without the marker, in every state of the run, the marker exists only if both
  arrays have been written in that run (also when the run ends early by an exception).
\<close>

theorem region_batch_effects:
  "(\<not> overwrite \<and> fs (done_path d k) \<noteq> None \<longrightarrow>
      get_region_alignment ar fs fetch (rg, k, bam, w, d, overwrite) = ([], None)
      \<and> replay (fst (get_region_alignment ar fs fetch (rg, k, bam, w, d, overwrite))) fs = fs)
   \<and> ((overwrite \<or> fs (done_path d k) = None)
        \<and> list_all (\<lambda>rd. \<not> isl (get_read_alignment ar rd rg w))
             (fetch (chrom rg) (start rg) (end_pos rg)) \<longrightarrow>
      get_region_alignment ar fs fetch (rg, k, bam, w, d, overwrite)
      = (Open_source bam
           # replicate (length (fetch (chrom rg) (start rg) (end_pos rg))) Fetch_read
           @ [Close_source,
              Save (alignment_path d k)
                (Alignment_array (map alignment
                   (contributions ar rg w (fetch (chrom rg) (start rg) (end_pos rg))))),
              Save (quality_path d k)
                (Quality_array (map quality
                   (contributions ar rg w (fetch (chrom rg) (start rg) (end_pos rg))))),
              Touch (done_path d k)],
         None))
   \<and> (fs (done_path d k) = None \<longrightarrow>
        marker_needs_arrays (done_path d k) (alignment_path d k) (quality_path d k) fs []
          (fst (get_region_alignment ar fs fetch (rg, k, bam, w, d, overwrite))))"
proof -
  have skip: "get_region_alignment ar fs fetch (rg, k, bam, w, d, overwrite) = ([], None)
      \<and> replay (fst (get_region_alignment ar fs fetch (rg, k, bam, w, d, overwrite))) fs = fs"
    if "\<not> overwrite \<and> fs (done_path d k) \<noteq> None"
    using that get_region_alignment_skip [of overwrite fs d k ar fetch rg bam w]
    by (simp add: replay_def)
  show ?thesis
    using skip get_region_alignment_run [of overwrite fs d k ar rg w fetch bam]
      get_region_alignment_marker [of fs d k ar fetch rg bam w overwrite]
    by blast
qed

theorem region_batch_effects_witness:
  "[''out/k.ali.done'' \<mapsto> (Empty_file :: real saved)] (done_path ''out'' ''k'') = Some Empty_file
   \<and> get_region_alignment exact_arithmetic [''out/k.ali.done'' \<mapsto> Empty_file]
        (\<lambda>c s e. [\<lparr>is_reverse = False, query_name = ''r5'', query_sequence = ''TAC'',
                      query_qualities = [29, 30, 31],
                      get_aligned_pairs = [(Some 1, Some 100), (Some 2, Some 101)]\<rparr>])
        (\<lparr>chrom = ''chr1'', start = 100, end_pos = 102, strand = ''+'', info = [], offset = 0\<rparr>,
         ''k'', ''reads.bam'', 2, ''out'', False)
      = ([], None)
   \<and> Map.empty (done_path ''out'' ''k'') = (None :: real saved option)
   \<and> get_region_alignment exact_arithmetic Map.empty
        (\<lambda>c s e. [\<lparr>is_reverse = False, query_name = ''r5'', query_sequence = ''TAC'',
                      query_qualities = [29, 30, 31],
                      get_aligned_pairs = [(Some 1, Some 100), (Some 2, Some 101)]\<rparr>])
        (\<lparr>chrom = ''chr1'', start = 100, end_pos = 102, strand = ''+'', info = [], offset = 0\<rparr>,
         ''k'', ''reads.bam'', 2, ''out'', False)
      = ([Open_source ''reads.bam'', Fetch_read, Close_source,
          Save ''out/k.reads_alignment.npy''
            (Alignment_array [[[1, 0, 0, 0, 0, 0], [0, 1, 0, 0, 0, 0]]]),
          Save ''out/k.reads_quality.npy'' (Quality_array [[30, 31 :: real]]),
          Touch ''out/k.ali.done''], None)
   \<and> marker_needs_arrays (done_path ''out'' ''k'') (alignment_path ''out'' ''k'')
        (quality_path ''out'' ''k'') Map.empty []
        [Open_source ''reads.bam'', Fetch_read, Close_source,
          Save ''out/k.reads_alignment.npy''
            (Alignment_array [[[1, 0, 0, 0, 0, 0], [0, 1, 0, 0, 0, 0]]]),
          Save ''out/k.reads_quality.npy'' (Quality_array [[30, 31 :: real]]),
          Touch ''out/k.ali.done'']"
proof -
  let ?rg = "\<lparr>chrom = ''chr1'', start = 100, end_pos = 102, strand = ''+'', info = [], offset = 0\<rparr>"
  let ?rd = "\<lparr>is_reverse = False, query_name = ''r5'', query_sequence = ''TAC'',
             query_qualities = [29, 30, 31],
             get_aligned_pairs = [(Some 1, Some 100), (Some 2, Some 101)]\<rparr>"
  let ?stale = "[''out/k.ali.done'' \<mapsto> (Empty_file :: real saved)]"
  let ?trace = "[Open_source ''reads.bam'', Fetch_read, Close_source,
          Save ''out/k.reads_alignment.npy''
            (Alignment_array [[[1, 0, 0, 0, 0, 0], [0, 1, 0, 0, 0, 0]]]),
          Save ''out/k.reads_quality.npy'' (Quality_array [[30, 31 :: real]]),
          Touch ''out/k.ali.done'']"
  have enc: "get_read_alignment exact_arithmetic ?rd ?rg 2
             = Inr (Some \<lparr>read_id = ''r5'', alignment = [[1, 0, 0, 0, 0, 0], [0, 1, 0, 0, 0, 0]],
                           quality = [30, 31]\<rparr>)"
    by (simp add: encoder_defs exact_values eval_nat_numeral)
  have stale: "?stale (done_path ''out'' ''k'') = Some Empty_file"
    and fresh: "Map.empty (done_path ''out'' ''k'') = (None :: real saved option)"
    by (simp_all add: done_path_def)
  have skipped: "get_region_alignment exact_arithmetic ?stale (\<lambda>c s e. [?rd])
                   (?rg, ''k'', ''reads.bam'', 2, ''out'', False) = ([], None)"
    using region_batch_effects [of False ?stale "''out''" "''k''" exact_arithmetic "\<lambda>c s e. [?rd]" ?rg
        "''reads.bam''" 2] stale
    by simp
  have ran: "get_region_alignment exact_arithmetic Map.empty (\<lambda>c s e. [?rd])
               (?rg, ''k'', ''reads.bam'', 2, ''out'', False) = (?trace, None)"
    using region_batch_effects [of False Map.empty "''out''" "''k''" exact_arithmetic "\<lambda>c s e. [?rd]" ?rg
        "''reads.bam''" 2] fresh enc
    by (simp add: contributions_simps alignment_path_def quality_path_def done_path_def)
  have "marker_needs_arrays (done_path ''out'' ''k'') (alignment_path ''out'' ''k'')
          (quality_path ''out'' ''k'') Map.empty []
          (fst (get_region_alignment exact_arithmetic Map.empty (\<lambda>c s e. [?rd])
                  (?rg, ''k'', ''reads.bam'', 2, ''out'', False)))"
    using region_batch_effects [of False Map.empty "''out''" "''k''" exact_arithmetic "\<lambda>c s e. [?rd]" ?rg
        "''reads.bam''" 2] fresh
    by blast
  then have "marker_needs_arrays (done_path ''out'' ''k'') (alignment_path ''out'' ''k'')
          (quality_path ''out'' ''k'') Map.empty [] ?trace"
    unfolding ran by simp
  with stale fresh skipped ran show ?thesis by blast
qed

text \<open>
  Claim C9. The encoder returns the empty result, and no error, exactly when the
  read's strand differs from the region's, or the scan ended without an exception and
  left a tensor with no entry set. The driver appends the tensors and quality vectors
  of the non-empty results only (up to the first read that makes the encoder raise): a
  non-empty result has some entry set, and the number of appended results is the
  number of reads whose result is neither an error nor empty.
\<close>

theorem empty_result_exactly:
  "(get_read_alignment ar rd rg w = Inr None) =
     (read_strand rd \<noteq> strand rg
      \<or> (raised (scan ar rd rg (init_state ar w) (get_aligned_pairs rd)) = None
          \<and> \<not> any_set (range_one_hot (scan ar rd rg (init_state ar w) (get_aligned_pairs rd)))))
   \<and> reads_alignment (read_loop ar rg w b rds)
       = reads_alignment b
         @ map alignment
             (contributions ar rg w (takeWhile (\<lambda>rd. \<not> isl (get_read_alignment ar rd rg w)) rds))
   \<and> reads_quality (read_loop ar rg w b rds)
       = reads_quality b
         @ map quality
             (contributions ar rg w (takeWhile (\<lambda>rd. \<not> isl (get_read_alignment ar rd rg w)) rds))
   \<and> list_all (\<lambda>f. any_set (alignment f)) (contributions ar rg w rds)
   \<and> length (contributions ar rg w rds)
       = length (filter (\<lambda>rd. \<not> isl (get_read_alignment ar rd rg w)
                               \<and> get_read_alignment ar rd rg w \<noteq> Inr None) rds)"
proof -
  have "(get_read_alignment ar rd rg w = Inr None) =
     (read_strand rd \<noteq> strand rg
      \<or> (raised (scan ar rd rg (init_state ar w) (get_aligned_pairs rd)) = None
          \<and> \<not> any_set (range_one_hot (scan ar rd rg (init_state ar w) (get_aligned_pairs rd)))))"
    by (auto simp: get_read_alignment_def Let_def split: option.splits)
  then show ?thesis
    using read_loop_arrays [of ar rg w b rds] contributions_nonempty [of ar rg w rds]
      contributions_length [of ar rg w rds]
    by blast
qed
theorem empty_result_exactly_witness:
  "read_strand \<lparr>is_reverse = True, query_name = ''r6'', query_sequence = ''TAC'',
                 query_qualities = [29, 30, 31],
                 get_aligned_pairs = [(Some 1, Some 100), (Some 2, Some 101)]\<rparr>
     \<noteq> strand \<lparr>chrom = ''chr1'', start = 100, end_pos = 102, strand = ''+'', info = [], offset = 0\<rparr>
   \<and> get_read_alignment exact_arithmetic
        \<lparr>is_reverse = True, query_name = ''r6'', query_sequence = ''TAC'',
          query_qualities = [29, 30, 31],
          get_aligned_pairs = [(Some 1, Some 100), (Some 2, Some 101)]\<rparr>
        \<lparr>chrom = ''chr1'', start = 100, end_pos = 102, strand = ''+'', info = [], offset = 0\<rparr> 2
      = Inr None
   \<and> range_one_hot (scan exact_arithmetic
        \<lparr>is_reverse = False, query_name = ''r7'', query_sequence = ''TAC'',
          query_qualities = [29, 30, 31], get_aligned_pairs = [(Some 1, Some 101)]\<rparr>
        \<lparr>chrom = ''chr1'', start = 100, end_pos = 102, strand = ''+'', info = [], offset = 0\<rparr>
        (init_state exact_arithmetic 2) [(Some 1, Some 101)])
      = [[0, 0, 0, 0, 0, 0], [0, 0, 0, 0, 0, 0]]
   \<and> get_read_alignment exact_arithmetic
        \<lparr>is_reverse = False, query_name = ''r7'', query_sequence = ''TAC'',
          query_qualities = [29, 30, 31], get_aligned_pairs = [(Some 1, Some 101)]\<rparr>
        \<lparr>chrom = ''chr1'', start = 100, end_pos = 102, strand = ''+'', info = [], offset = 0\<rparr> 2
      = Inr None
   \<and> reads_alignment (read_loop exact_arithmetic
        \<lparr>chrom = ''chr1'', start = 100, end_pos = 102, strand = ''+'', info = [], offset = 0\<rparr> 2
        \<lparr>reads_alignment = [], reads_quality = [], events = [], failed = None\<rparr>
        [\<lparr>is_reverse = True, query_name = ''r6'', query_sequence = ''TAC'',
           query_qualities = [29, 30, 31],
           get_aligned_pairs = [(Some 1, Some 100), (Some 2, Some 101)]\<rparr>,
         \<lparr>is_reverse = False, query_name = ''r7'', query_sequence = ''TAC'',
           query_qualities = [29, 30, 31], get_aligned_pairs = [(Some 1, Some 101)]\<rparr>,
         \<lparr>is_reverse = False, query_name = ''r5'', query_sequence = ''TAC'',
           query_qualities = [29, 30, 31],
           get_aligned_pairs = [(Some 1, Some 100), (Some 2, Some 101)]\<rparr>])
      = [[[1, 0, 0, 0, 0, 0], [0, 1, 0, 0, 0, 0]]]"
proof -
  let ?rg = "\<lparr>chrom = ''chr1'', start = 100, end_pos = 102, strand = ''+'', info = [], offset = 0\<rparr>"
  let ?r6 = "\<lparr>is_reverse = True, query_name = ''r6'', query_sequence = ''TAC'',
              query_qualities = [29, 30, 31],
              get_aligned_pairs = [(Some 1, Some 100), (Some 2, Some 101)]\<rparr>"
  let ?r7 = "\<lparr>is_reverse = False, query_name = ''r7'', query_sequence = ''TAC'',
              query_qualities = [29, 30, 31], get_aligned_pairs = [(Some 1, Some 101)]\<rparr>"
  let ?r5 = "\<lparr>is_reverse = False, query_name = ''r5'', query_sequence = ''TAC'',
              query_qualities = [29, 30, 31],
              get_aligned_pairs = [(Some 1, Some 100), (Some 2, Some 101)]\<rparr>"
  let ?b = "\<lparr>reads_alignment = [], reads_quality = [], events = [], failed = None\<rparr>
              :: real batch"
  have mismatch: "read_strand ?r6 \<noteq> strand ?rg"
    by (simp add: read_strand_def)
  have scanned: "scan exact_arithmetic ?r7 ?rg (init_state exact_arithmetic 2) (get_aligned_pairs ?r7) = init_state exact_arithmetic 2"
    by (simp add: init_state_def truthy_def)
  have zero: "range_one_hot (init_state exact_arithmetic 2) = [[0, 0, 0, 0, 0, 0], [0, 0, 0, 0, 0, 0]]"
    and quiet: "raised (init_state exact_arithmetic 2) = None"
    by (simp_all add: init_state_def eval_nat_numeral)
  have blank: "\<not> any_set (range_one_hot (init_state exact_arithmetic 2))"
    unfolding zero by (simp add: any_set_def)
  have e6: "get_read_alignment exact_arithmetic ?r6 ?rg 2 = Inr None"
    using empty_result_exactly [of exact_arithmetic ?r6 ?rg 2] mismatch by blast
  have e7: "get_read_alignment exact_arithmetic ?r7 ?rg 2 = Inr None"
    using empty_result_exactly [of exact_arithmetic ?r7 ?rg 2] scanned quiet blank by simp
  have e5: "get_read_alignment exact_arithmetic ?r5 ?rg 2
            = Inr (Some \<lparr>read_id = ''r5'', alignment = [[1, 0, 0, 0, 0, 0], [0, 1, 0, 0, 0, 0]],
                          quality = [30, 31]\<rparr>)"
    by (simp add: encoder_defs exact_values eval_nat_numeral)
  have "reads_alignment (read_loop exact_arithmetic ?rg 2 ?b [?r6, ?r7, ?r5])
        = reads_alignment ?b @ map alignment (contributions exact_arithmetic ?rg 2
            (takeWhile (\<lambda>rd. \<not> isl (get_read_alignment exact_arithmetic rd ?rg 2)) [?r6, ?r7, ?r5]))"
    using empty_result_exactly [of exact_arithmetic ?r6 ?rg 2 ?b "[?r6, ?r7, ?r5]"] by blast
  then have acc: "reads_alignment (read_loop exact_arithmetic ?rg 2 ?b [?r6, ?r7, ?r5])
                  = [[[1, 0, 0, 0, 0, 0], [0, 1, 0, 0, 0, 0]]]"
    by (simp add: e6 e7 e5 contributions_simps)
  have tensor: "range_one_hot (scan exact_arithmetic ?r7 ?rg (init_state exact_arithmetic 2) [(Some 1, Some 101)])
                = [[0, 0, 0, 0, 0, 0], [0, 0, 0, 0, 0, 0]]"
    using scanned zero by simp
  from mismatch e6 tensor e7 acc show ?thesis by blast
qed

end
